theory Spec2Isabelle
  imports Complex_Main "HOL-Library.Log_Nat"
begin

section \<open>Single-precision arithmetic used by the scaling code\<close>

text \<open>
  \<^verbatim>\<open>request_stream\<close> and \<^verbatim>\<open>post_hook\<close> compute with C++ \<^verbatim>\<open>float\<close>:
  \<^verbatim>\<open>vg.width * (max_dimension / float(vg.height))\<close>. The model follows IEEE 754 binary32
  with round-to-nearest, ties-to-even: a finite value is the rational it denotes, and every
  operation rounds the exact result to 24 significant bits at once (no wider intermediate
  format, as on x86-64 and AArch64). Operands here come from 32-bit
  integers, so quotients lie between \<open>2\<^sup>-\<^sup>3\<^sup>1\<close> and \<open>2\<^sup>3\<^sup>1\<close> and products below \<open>2\<^sup>6\<^sup>2\<close>:
  the exponent range of binary32 is never left, and only division by zero produces an
  infinity or a NaN. Those are kept apart as \<open>Not_finite\<close>; nothing ever divides by one.
\<close>

datatype float32 = Finite rat | Not_finite

definition ilog2 :: "rat \<Rightarrow> int" where
  \<comment> \<open>for \<open>x > 0\<close>: the exponent \<open>e\<close> with \<open>2\<^sup>e \<le> x < 2\<^sup>e\<^sup>+\<^sup>1\<close>\<close>
  "ilog2 x = (case quotient_of x of (p, q) \<Rightarrow>
     (let d = bitlen p - bitlen q in if 2 powi d \<le> x then d else d - 1))"

definition rne :: "rat \<Rightarrow> int" where
  \<comment> \<open>round to the nearest integer, ties to the even one\<close>
  "rne x = (let f = \<lfloor>x\<rfloor>; r = x - of_int f in
     if r < 1 / 2 then f else if 1 / 2 < r then f + 1 else if even f then f else f + 1)"

definition float_round :: "rat \<Rightarrow> rat" where
  \<comment> \<open>the binary32 value nearest to \<open>x\<close>: a 24-bit significand times a power of two\<close>
  "float_round x = (if x = 0 then 0 else
     (let a = \<bar>x\<bar>; e = ilog2 a - 23 in sgn x * of_int (rne (a / 2 powi e)) * 2 powi e))"

definition of_int32 :: "int \<Rightarrow> float32" where
  \<comment> \<open>\<^verbatim>\<open>float(n)\<close>, and the implicit conversion of an \<^verbatim>\<open>int\<close> operand\<close>
  "of_int32 n = Finite (float_round (of_int n))"

fun fdiv :: "float32 \<Rightarrow> float32 \<Rightarrow> float32" where
  "fdiv (Finite a) (Finite b) = (if b = 0 then Not_finite else Finite (float_round (a / b)))"
| "fdiv _ _ = Not_finite"

fun fmul :: "float32 \<Rightarrow> float32 \<Rightarrow> float32" where
  "fmul (Finite a) (Finite b) = Finite (float_round (a * b))"
| "fmul _ _ = Not_finite"

fun to_int :: "float32 \<Rightarrow> int option" where
  \<comment> \<open>assignment of a \<^verbatim>\<open>float\<close> to an \<^verbatim>\<open>int\<close>: truncation towards zero; the behaviour is
      undefined (\<open>None\<close>) for a value that is not finite or does not fit 32 bits\<close>
  "to_int (Finite x) =
     (let t = (if 0 \<le> x then \<lfloor>x\<rfloor> else \<lceil>x\<rceil>) in
      if - (2 ^ 31) \<le> t \<and> t < 2 ^ 31 then Some t else None)"
| "to_int Not_finite = None"


section \<open>Data model\<close>

type_synonym view = nat
type_synonym wf_output = nat

record dimensions =
  width :: int
  height :: int

datatype json = Json_ok | Json_error string

text \<open>Calls into the host (wlroots, the renderer) that leave no trace in the plugin's own
  fields are recorded in a log, oldest first.\<close>

datatype host_call =
    Headless_backend_create
  | Headless_add_output dimensions
  | Output_test_state wf_output dimensions
  | Output_commit_state wf_output dimensions
  | Output_layout_remove wf_output
  | Output_destroy wf_output
  | View_damage view
  | Take_snapshot view float32
  | Blit dimensions

text \<open>
  One record holds the members of \<^verbatim>\<open>live_previews_plugin\<close> and the part of the compositor
  they act on. Views and outputs are identified by numbers (their addresses in the source);
  a nullable pointer is an \<open>option\<close>. \<open>hooks_set\<close> is the \<^verbatim>\<open>std::map\<close> of the source, keyed by
  a possibly null output pointer. \<open>view_unmapped_conn\<close> and \<open>on_output_pre_remove_conn\<close> are
  the providers the two signal connections are attached to; \<open>instance_manager\<close> names the
  view whose scene nodes the render instance manager (the damage bridge) watches.
  \<open>post_hooks\<close> and \<open>effect_hooks\<close> say whether \<^verbatim>\<open>post_hook\<close> and \<^verbatim>\<open>damage_hook\<close> are registered
  with an output's render manager. \<open>test_state\<close> is the host's answer to
  \<^verbatim>\<open>wlr_output_test_state\<close> for a mode; \<open>next_handle\<close> is the output that
  \<^verbatim>\<open>wlr_headless_add_output\<close> creates next.
\<close>

record state =
  max_dimension :: int
  frame_skip :: int
  current_preview :: "view option"
  wo :: "wf_output option"
  current_size :: dimensions
  hooks_set :: "wf_output option \<rightharpoonup> bool"
  drop_frame :: int
  instance_manager :: "view option"
  headless_backend :: bool
  view_unmapped_conn :: "view set"
  on_output_pre_remove_conn :: "wf_output set"
  find_view_by_id :: "nat \<Rightarrow> view option"
  toplevel :: "view \<Rightarrow> bool"
  get_geometry :: "view \<Rightarrow> dimensions"
  get_output :: "view \<Rightarrow> wf_output"
  layout :: "wf_output list"
  output_name :: "wf_output \<Rightarrow> string"
  output_mode :: "wf_output \<Rightarrow> dimensions"
  output_scale :: "wf_output \<Rightarrow> float32"
  post_hooks :: "wf_output \<Rightarrow> bool"
  effect_hooks :: "wf_output \<Rightarrow> bool"
  test_state :: "wf_output \<Rightarrow> dimensions \<Rightarrow> bool"
  next_handle :: wf_output
  active_output :: "wf_output option"
  get_next_output :: "wf_output \<Rightarrow> wf_output"
  calls :: "host_call list"

definition call :: "host_call \<Rightarrow> state \<Rightarrow> state" where
  "call c s = s\<lparr>calls := calls s @ [c]\<rparr>"


section \<open>Scaling policy (\<^verbatim>\<open>request_stream\<close>, lines 113-123)\<close>

definition scaled_geometry :: "int \<Rightarrow> dimensions \<Rightarrow> dimensions option" where
  "scaled_geometry M vg =
     (if width vg < height vg then
        (case to_int (fmul (of_int32 (width vg)) (fdiv (of_int32 M) (of_int32 (height vg)))) of
           None \<Rightarrow> None
         | Some w' \<Rightarrow> Some \<lparr>width = w', height = M\<rparr>)
      else
        (case to_int (fmul (of_int32 (height vg)) (fdiv (of_int32 M) (of_int32 (width vg)))) of
           None \<Rightarrow> None
         | Some h' \<Rightarrow> Some \<lparr>width = M, height = h'\<rparr>))"


section \<open>Operations of the plugin\<close>

text \<open>
  The two control operations, the unmap handler, \<^verbatim>\<open>destroy_output\<close> and the post hook are
  modelled. \<^verbatim>\<open>damage_hook\<close>, \<^verbatim>\<open>push_damage\<close>, the handler of \<^verbatim>\<open>on_output_pre_remove\<close>, \<^verbatim>\<open>init\<close> and
  \<^verbatim>\<open>fini\<close> only damage outputs, or run when the host removes an output or unloads the
  plugin; no property below depends on them.
\<close>

definition destroy_render_instance_manager :: "state \<Rightarrow> state" where
  "destroy_render_instance_manager s =
     (case instance_manager s of None \<Rightarrow> s | Some _ \<Rightarrow> s\<lparr>instance_manager := None\<rparr>)"

definition create_render_instance_manager :: "view \<Rightarrow> state \<Rightarrow> state" where
  "create_render_instance_manager v s =
     (case instance_manager s of Some _ \<Rightarrow> s | None \<Rightarrow> s\<lparr>instance_manager := Some v\<rparr>)"

text \<open>\<^verbatim>\<open>hooks_set[p]\<close>: reading through \<^verbatim>\<open>operator[]\<close> inserts \<open>false\<close> for an absent key.\<close>

definition hooks_set_touch :: "wf_output option \<Rightarrow> state \<Rightarrow> state" where
  "hooks_set_touch p s =
     (case hooks_set s p of None \<Rightarrow> s\<lparr>hooks_set := (hooks_set s)(p \<mapsto> False)\<rparr> | Some _ \<Rightarrow> s)"

definition hooks_set_get :: "wf_output option \<Rightarrow> state \<Rightarrow> bool" where
  "hooks_set_get p s = (hooks_set s p = Some True)"

text \<open>Lines 155-160 and 188-193: register the two hooks unless the map says they are.\<close>

definition add_hooks :: "wf_output \<Rightarrow> state \<Rightarrow> state" where
  "add_hooks w s =
     (let s1 = hooks_set_touch (Some w) s in
      if \<not> hooks_set_get (Some w) s1
      then s1\<lparr>post_hooks := (post_hooks s1)(w := True),
              effect_hooks := (effect_hooks s1)(w := True),
              hooks_set := (hooks_set s1)(Some w \<mapsto> True)\<rparr>
      else s1)"

text \<open>Lines 212-217, 292-297 and 311-316: unregister the hooks if the map says they are
  registered. With a null pointer and a true entry the source dereferences null: \<open>None\<close>.\<close>

definition rem_hooks :: "wf_output option \<Rightarrow> state \<Rightarrow> state option" where
  "rem_hooks p s =
     (let s1 = hooks_set_touch p s in
      if hooks_set_get p s1
      then (case p of
              None \<Rightarrow> None
            | Some w \<Rightarrow> Some (s1\<lparr>post_hooks := (post_hooks s1)(w := False),
                                 effect_hooks := (effect_hooks s1)(w := False),
                                 hooks_set := (hooks_set s1)(p \<mapsto> False)\<rparr>))
      else Some s1)"

definition find_output :: "state \<Rightarrow> string \<Rightarrow> wf_output option" where
  "find_output s n = List.find (\<lambda>out. output_name s out = n) (layout s)"

text \<open>\<^verbatim>\<open>destroy_output\<close> (lines 300-332). The output it works on was found in the layout, so
  it is not null and removing its hooks cannot fail.\<close>

definition destroy_output :: "state \<Rightarrow> state" where
  "destroy_output s =
     (case find_output s ''live-preview'' of
        None \<Rightarrow> s
      | Some out \<Rightarrow>
          (let s1 = destroy_render_instance_manager s;
               s2 = s1\<lparr>current_preview := None, view_unmapped_conn := {}\<rparr>;
               s3 = (case rem_hooks (Some out) s2 of Some t \<Rightarrow> t | None \<Rightarrow> s2);
               s4 = s3\<lparr>on_output_pre_remove_conn := {}\<rparr>;
               s5 = (if active_output s4 = Some out
                     then s4\<lparr>active_output := Some (get_next_output s4 out)\<rparr> else s4);
               s6 = call (Output_layout_remove out) s5;
               s7 = call (Output_destroy out) (s6\<lparr>layout := removeAll out (layout s6)\<rparr>)
           in if Some out = wo s7 then s7\<lparr>wo := None\<rparr> else s7))"

text \<open>Lines 130-151: test the new mode on the existing output, commit it or destroy the
  output.\<close>

definition resize_output :: "dimensions \<Rightarrow> state \<Rightarrow> state" where
  "resize_output vg s =
     (case wo s of
        None \<Rightarrow> s
      | Some w \<Rightarrow>
          (let s1 = call (Output_test_state w vg) s in
           if test_state s1 w vg
           then call (Output_commit_state w vg) (s1\<lparr>output_mode := (output_mode s1)(w := vg)\<rparr>)
           else destroy_output s1))"

text \<open>Lines 161-165 and 195-199: bind the requested view.\<close>

definition bind_view :: "view \<Rightarrow> state \<Rightarrow> state" where
  "bind_view v s =
     (let s1 = s\<lparr>view_unmapped_conn := insert v (view_unmapped_conn s)\<rparr>;
          s2 = destroy_render_instance_manager s1;
          s3 = create_render_instance_manager v s2;
          s4 = s3\<lparr>current_preview := Some v\<rparr>
      in call (View_damage v) s4)"

text \<open>Lines 168-194: create the headless backend once, add an output of the computed size,
  name it and take it as \<^verbatim>\<open>wo\<close>. The test and commit of the render format change nothing
  that is modelled here. \<^verbatim>\<open>find_output(handle)\<close> is taken to return the new output.\<close>

definition create_output :: "dimensions \<Rightarrow> state \<Rightarrow> state" where
  "create_output vg s =
     (let s1 = (if \<not> headless_backend s
                then call Headless_backend_create (s\<lparr>headless_backend := True\<rparr>) else s);
          handle = next_handle s1;
          s2 = call (Headless_add_output vg)
                 (s1\<lparr>next_handle := handle + 1,
                     layout := layout s1 @ [handle],
                     output_mode := (output_mode s1)(handle := vg),
                     output_scale := (output_scale s1)(handle := Finite 1),
                     post_hooks := (post_hooks s1)(handle := False),
                     effect_hooks := (effect_hooks s1)(handle := False)\<rparr>);
          s3 = s2\<lparr>output_name := (output_name s2)(handle := ''live-preview'')\<rparr>;
          s4 = s3\<lparr>wo := Some handle\<rparr>;
          s5 = add_hooks handle s4
      in s5\<lparr>on_output_pre_remove_conn := insert handle (on_output_pre_remove_conn s5)\<rparr>)"

text \<open>\<^verbatim>\<open>request_stream\<close> (lines 103-205). The result is \<open>None\<close> where the conversion of the
  scaled side to \<^verbatim>\<open>int\<close> is undefined.\<close>

definition request_stream :: "nat \<Rightarrow> state \<Rightarrow> (json \<times> state) option" where
  "request_stream ident s =
     (case find_view_by_id s ident of
        None \<Rightarrow> Some (Json_error ''no such view'', s)
      | Some v \<Rightarrow>
          if \<not> toplevel s v then Some (Json_error ''view is not a toplevel'', s)
          else
            (case scaled_geometry (max_dimension s) (get_geometry s v) of
               None \<Rightarrow> None
             | Some vg \<Rightarrow>
                 (let s1 = s\<lparr>drop_frame := frame_skip s\<rparr>;
                      s2 = (if width vg \<noteq> width (current_size s1)
                               \<or> height vg \<noteq> height (current_size s1)
                            then resize_output vg (s1\<lparr>current_size := vg\<rparr>)
                            else s1)
                  in case wo s2 of
                       Some w \<Rightarrow> Some (Json_ok, bind_view v (add_hooks w s2))
                     | None \<Rightarrow> Some (Json_ok, bind_view v (create_output vg s2)))))"

text \<open>\<^verbatim>\<open>release_output\<close> (lines 207-220).\<close>

definition release_output :: "state \<Rightarrow> (json \<times> state) option" where
  "release_output s =
     (let s1 = destroy_render_instance_manager s;
          s2 = s1\<lparr>view_unmapped_conn := {}\<rparr>
      in case rem_hooks (wo s2) s2 of
           None \<Rightarrow> None
         | Some s3 \<Rightarrow> Some (Json_ok, s3))"

text \<open>The handler \<^verbatim>\<open>view_unmapped\<close> (lines 281-298), run for the signal of view \<open>v\<close>.\<close>

definition view_unmapped :: "view \<Rightarrow> state \<Rightarrow> state option" where
  "view_unmapped v s =
     (if Some v \<noteq> current_preview s then Some s
      else
        (let s1 = s\<lparr>view_unmapped_conn := {}\<rparr>;
             s2 = destroy_render_instance_manager s1;
             s3 = s2\<lparr>current_preview := None\<rparr>
         in rem_hooks (wo s3) s3))"

text \<open>The capture of \<^verbatim>\<open>post_hook\<close> (lines 246-262). \<^verbatim>\<open>toplevel_cast\<close> of a view that is not a
  toplevel returns null, which the source dereferences: \<open>None\<close>. The snapshot is logged with
  the scale its output has at that moment.\<close>

definition capture :: "view \<Rightarrow> state \<Rightarrow> state option" where
  "capture v s =
     (if \<not> toplevel s v then None
      else
        (let s1 = call (View_damage v) s;
             view_output = get_output s1 v;
             vg = get_geometry s1 v;
             saved_scale = output_scale s1 view_output;
             temp_scale = fdiv (of_int32 (max_dimension s1)) (of_int32 (width vg));
             s2 = s1\<lparr>output_scale := (output_scale s1)(view_output := temp_scale)\<rparr>;
             s3 = call (Take_snapshot v (output_scale s2 (get_output s2 v))) s2;
             s4 = s3\<lparr>output_scale := (output_scale s3)(view_output := saved_scale)\<rparr>;
             s5 = call (Blit (current_size s4)) s4
         in Some (call (View_damage v) s5)))"

text \<open>\<^verbatim>\<open>post_hook\<close> (lines 231-263), one frame tick of the synthetic output. The counter is
  compared before it is incremented; where the comparison holds the incremented value is
  overwritten by 0 at once.\<close>

definition post_hook :: "state \<Rightarrow> state option" where
  "post_hook s =
     (case current_preview s of
        None \<Rightarrow> Some s
      | Some v \<Rightarrow>
          if frame_skip s \<le> drop_frame s
          then capture v (s\<lparr>drop_frame := 0\<rparr>)
          else Some (s\<lparr>drop_frame := drop_frame s + 1\<rparr>))"

fun ticks :: "nat \<Rightarrow> state \<Rightarrow> state option" where
  "ticks 0 s = Some s"
| "ticks (Suc n) s = (case post_hook s of None \<Rightarrow> None | Some s' \<Rightarrow> ticks n s')"

fun is_snapshot :: "host_call \<Rightarrow> bool" where
  "is_snapshot (Take_snapshot _ _) = True"
| "is_snapshot _ = False"

definition captures :: "state \<Rightarrow> nat" where
  "captures s = length (filter is_snapshot (calls s))"


section \<open>The properties under test, as predicates\<close>

text \<open>The scaling property as the specification words it: the larger preview side is
  \<open>max_dimension\<close>, and the scaled side is within one pixel of the exact proportional value
  (\<open>\<bar>p - s * M / l\<bar> \<le> 1\<close>, written without division).\<close>

definition scaling_claim :: "int \<Rightarrow> int \<Rightarrow> int \<Rightarrow> bool" where
  "scaling_claim M w h =
     (case scaled_geometry M \<lparr>width = w, height = h\<rparr> of
        None \<Rightarrow> False
      | Some pv \<Rightarrow>
          max (width pv) (height pv) = M
          \<and> (if w < h then \<bar>width pv * h - w * M\<bar> \<le> h else \<bar>height pv * w - h * M\<bar> \<le> w))"


text \<open>The replies and the states that an operation returns, for statements about concrete
  runs.\<close>

definition reply :: "(json \<times> state) option \<Rightarrow> json option" where
  "reply r = map_option fst r"

definition state_after :: "(json \<times> state) option \<Rightarrow> state option" where
  "state_after r = map_option snd r"

fun snapshot_scales :: "host_call list \<Rightarrow> float32 list" where
  "snapshot_scales [] = []"
| "snapshot_scales (Take_snapshot v sc # cs) = sc # snapshot_scales cs"
| "snapshot_scales (c # cs) = snapshot_scales cs"

text \<open>What the frame throttle relies on between two requests: a toplevel window is bound
  and the counter lies between 0 and \<open>frame_skip\<close>.\<close>

definition throttle_inv :: "view \<Rightarrow> state \<Rightarrow> bool" where
  "throttle_inv v s =
     (current_preview s = Some v \<and> toplevel s v \<and> 0 \<le> drop_frame s \<and> drop_frame s \<le> frame_skip s)"


text \<open>What the operations keep true of the synthetic output: it is the one output of the
  layout named \<^verbatim>\<open>live-preview\<close>, outputs in the layout are older than the next handle, and
  the hook map has no true entry for the null output.\<close>

definition surface_inv :: "state \<Rightarrow> bool" where
  "surface_inv s =
     ((\<forall>out \<in> set (layout s). (output_name s out = ''live-preview'') = (wo s = Some out))
      \<and> set_option (wo s) \<subseteq> set (layout s)
      \<and> (\<forall>out \<in> set (layout s). out < next_handle s)
      \<and> hooks_set s None \<noteq> Some True)"


text \<open>The hook map agrees with the registrations: \<^verbatim>\<open>post_hook\<close> and \<^verbatim>\<open>damage_hook\<close> are registered
  with an output exactly when its entry is true, and only the entry of \<^verbatim>\<open>wo\<close> is ever true.\<close>

definition hooks_inv :: "state \<Rightarrow> bool" where
  "hooks_inv s =
     ((\<forall>out. post_hooks s out = (hooks_set s (Some out) = Some True))
      \<and> (\<forall>out. effect_hooks s out = (hooks_set s (Some out) = Some True))
      \<and> (\<forall>out. hooks_set s (Some out) = Some True \<longrightarrow> wo s = Some out))"

text \<open>The source has no state field. What stands for the specification's Idle is: no render
  instance manager, no unmap subscription, and neither hook registered with the synthetic
  output, so that no frame of it reaches \<^verbatim>\<open>post_hook\<close> or \<^verbatim>\<open>damage_hook\<close>.\<close>

definition session_idle :: "state \<Rightarrow> bool" where
  "session_idle s =
     (instance_manager s = None \<and> view_unmapped_conn s = {}
      \<and> (\<forall>w \<in> set_option (wo s). \<not> post_hooks s w \<and> \<not> effect_hooks s w))"


section \<open>A concrete session\<close>

text \<open>
  A compositor with one real output (number 1, \<^verbatim>\<open>DP-1\<close>) and five views, all shown on
  it: 7 is 800 by 600, 8 is 600 by 800, 9 is 0 by 600, 11 is 1600 by 1200, 12 is
  1920 by 1080, and 10 is not a toplevel. \<open>max_dimension\<close> is 256 and \<open>frame_skip\<close> is 2.
  The host accepts a new mode on an existing output only if it is at most 200 pixels high.
\<close>

definition ex_views :: "nat \<Rightarrow> view option" where
  "ex_views i = (if i = 7 \<or> i = 8 \<or> i = 9 \<or> i = 10 \<or> i = 11 \<or> i = 12 then Some i else None)"

definition ex_geometry :: "view \<Rightarrow> dimensions" where
  "ex_geometry v =
     (if v = 8 then \<lparr>width = 600, height = 800\<rparr>
      else if v = 9 then \<lparr>width = 0, height = 600\<rparr>
      else if v = 11 then \<lparr>width = 1600, height = 1200\<rparr>
      else if v = 12 then \<lparr>width = 1920, height = 1080\<rparr>
      else \<lparr>width = 800, height = 600\<rparr>)"

definition ex_idle :: state where
  "ex_idle =
     \<lparr>max_dimension = 256, frame_skip = 2, current_preview = None, wo = None,
      current_size = \<lparr>width = 0, height = 0\<rparr>, hooks_set = Map.empty, drop_frame = 0,
      instance_manager = None, headless_backend = False, view_unmapped_conn = {},
      on_output_pre_remove_conn = {}, find_view_by_id = ex_views,
      toplevel = (\<lambda>v. v \<noteq> 10), get_geometry = ex_geometry, get_output = (\<lambda>v. 1),
      layout = [1], output_name = (\<lambda>out. ''DP-1''),
      output_mode = (\<lambda>out. \<lparr>width = 1920, height = 1080\<rparr>),
      output_scale = (\<lambda>out. Finite 1), post_hooks = (\<lambda>out. False),
      effect_hooks = (\<lambda>out. False), test_state = (\<lambda>out d. height d \<le> 200),
      next_handle = 2, active_output = Some 1, get_next_output = (\<lambda>out. 1), calls = []\<rparr>"

text \<open>The state after the first successful \<^verbatim>\<open>request_stream\<close> in \<open>ex_idle\<close>, for view \<open>v\<close> with
  preview size \<open>sz\<close>: output 2 is the synthetic one.\<close>

definition ex_bound :: "view \<Rightarrow> dimensions \<Rightarrow> state" where
  "ex_bound v sz =
     ex_idle\<lparr>current_preview := Some v, wo := Some 2, current_size := sz,
             hooks_set := [Some 2 \<mapsto> True], drop_frame := 2, instance_manager := Some v,
             headless_backend := True, view_unmapped_conn := {v},
             on_output_pre_remove_conn := {2}, layout := [1, 2],
             output_name := (\<lambda>out. ''DP-1'')(2 := ''live-preview''),
             output_mode := (\<lambda>out. \<lparr>width = 1920, height = 1080\<rparr>)(2 := sz),
             output_scale := (\<lambda>out. Finite 1)(2 := Finite 1),
             post_hooks := (\<lambda>out. False)(2 := True),
             effect_hooks := (\<lambda>out. False)(2 := True),
             next_handle := 3,
             calls := [Headless_backend_create, Headless_add_output sz, View_damage v]\<rparr>"

definition ex_streaming :: state where
  "ex_streaming = ex_bound 7 \<lparr>width = 256, height = 192\<rparr>"

definition ex_portrait :: state where
  "ex_portrait = ex_bound 8 \<lparr>width = 192, height = 256\<rparr>"



section \<open>Rounding lemmas\<close>

lemma rne_err: "\<bar>of_int (rne y) - y\<bar> \<le> 1 / 2"
  unfolding rne_def Let_def by (auto simp: abs_if) linarith+

lemma rne_of_int: "rne (of_int k) = k"
  unfolding rne_def Let_def by simp

lemma rne_nonneg: "0 \<le> y \<Longrightarrow> 0 \<le> rne y"
  unfolding rne_def Let_def by auto

lemma ilog2_le:
  assumes "0 < x"
  shows "2 powi (ilog2 x) \<le> x"
proof -
  obtain p q where pq: "quotient_of x = (p, q)" by (cases "quotient_of x")
  have q: "0 < q" using pq quotient_of_denom_pos by blast
  have x: "x = of_int p / of_int q" using pq quotient_of_div by blast
  have p: "0 < p" using assms q x by (simp add: zero_less_divide_iff)
  let ?d = "bitlen p - bitlen q"
  have bp: "2 ^ nat (bitlen p - 1) \<le> p" using bitlen_bounds[OF p] by simp
  have bq: "q < 2 ^ nat (bitlen q)" using bitlen_bounds[OF q] by simp
  have bp1: "1 \<le> bitlen p" using p by (simp add: bitlen_alt_def)
  have bq1: "1 \<le> bitlen q" using q by (simp add: bitlen_alt_def)
  have "(2::rat) powi (?d - 1) = 2 powi (bitlen p - 1) / 2 powi (bitlen q)"
    by (simp add: power_int_diff)
  also have "\<dots> = 2 ^ nat (bitlen p - 1) / 2 ^ nat (bitlen q)"
    using bp1 bq1 by (simp add: power_int_def)
  also have "\<dots> \<le> of_int p / 2 ^ nat (bitlen q)"
  proof -
    have "(of_int (2 ^ nat (bitlen p - 1)) :: rat) \<le> of_int p" using bp by (simp only: of_int_le_iff)
    then show ?thesis by (simp add: divide_right_mono)
  qed
  also have "\<dots> \<le> of_int p / of_int q"
  proof -
    have "(of_int q :: rat) \<le> of_int (2 ^ nat (bitlen q))" using bq by (simp only: of_int_le_iff)
    then show ?thesis using p q by (simp add: frac_le)
  qed
  finally have low: "(2::rat) powi (?d - 1) \<le> x" using x by simp
  show ?thesis using low pq by (simp add: ilog2_def Let_def)
qed

lemma ilog2_gt:
  assumes "0 < x"
  shows "x < 2 powi (ilog2 x + 1)"
proof -
  obtain p q where pq: "quotient_of x = (p, q)" by (cases "quotient_of x")
  have q: "0 < q" using pq quotient_of_denom_pos by blast
  have x: "x = of_int p / of_int q" using pq quotient_of_div by blast
  have p: "0 < p" using assms q x by (simp add: zero_less_divide_iff)
  let ?d = "bitlen p - bitlen q"
  have bp: "p < 2 ^ nat (bitlen p)" using bitlen_bounds[OF p] by simp
  have bq: "2 ^ nat (bitlen q - 1) \<le> q" using bitlen_bounds[OF q] by simp
  have bp1: "1 \<le> bitlen p" using p by (simp add: bitlen_alt_def)
  have bq1: "1 \<le> bitlen q" using q by (simp add: bitlen_alt_def)
  have "of_int p / of_int q < (2 ^ nat (bitlen p) :: rat) / of_int q"
  proof -
    have "(of_int p :: rat) < of_int (2 ^ nat (bitlen p))" using bp by (simp only: of_int_less_iff)
    then show ?thesis using q by (simp add: divide_strict_right_mono)
  qed
  also have "\<dots> \<le> 2 ^ nat (bitlen p) / 2 ^ nat (bitlen q - 1)"
  proof -
    have "(of_int (2 ^ nat (bitlen q - 1)) :: rat) \<le> of_int q" using bq by (simp only: of_int_le_iff)
    then show ?thesis by (simp add: frac_le)
  qed
  also have "\<dots> = 2 powi (bitlen p) / 2 powi (bitlen q - 1)"
    using bp1 bq1 by (simp add: power_int_def)
  also have "\<dots> = 2 powi (?d + 1)"
    by (simp add: power_int_diff power_int_add)
  finally have up: "x < 2 powi (?d + 1)" using x by simp
  show ?thesis
  proof (cases "(2::rat) powi ?d \<le> x")
    case True
    then show ?thesis using up pq by (simp add: ilog2_def Let_def)
  next
    case False
    then show ?thesis using pq by (simp add: ilog2_def Let_def)
  qed
qed

text \<open>The rounded value has a significand of 24 bits at the exponent of its argument.\<close>

lemma rne_bounds: "\<lfloor>y\<rfloor> \<le> rne y \<and> rne y \<le> \<lfloor>y\<rfloor> + 1"
  unfolding rne_def Let_def by auto

lemma float_round_significand:
  assumes "0 < x"
  shows "\<exists>m. float_round x = of_int m * 2 powi (ilog2 x - 23) \<and> 2 ^ 23 \<le> m \<and> m \<le> 2 ^ 24"
proof -
  define e where "e = ilog2 x - 23"
  define y where "y = x / 2 powi e"
  have pe: "(0::rat) < 2 powi e" by simp
  have "2 powi (ilog2 x) = (2::rat) powi e * 2 ^ 23"
    by (simp add: e_def power_int_diff)
  then have lo: "2 ^ 23 \<le> y"
    using ilog2_le[OF assms] pe by (simp add: y_def field_simps)
  have "2 powi (ilog2 x + 1) = (2::rat) powi e * 2 ^ 24"
    by (simp add: e_def power_int_diff power_int_add)
  then have hi: "y < 2 ^ 24"
    using ilog2_gt[OF assms] pe by (simp add: y_def field_simps)
  have "(2 ^ 23 :: int) \<le> \<lfloor>y\<rfloor>" using lo by (simp add: le_floor_iff)
  moreover have "\<lfloor>y\<rfloor> < 2 ^ 24" using hi by (simp add: floor_less_iff)
  ultimately have m: "2 ^ 23 \<le> rne y" "rne y \<le> 2 ^ 24" using rne_bounds[of y] by linarith+
  have "float_round x = of_int (rne y) * 2 powi e"
    using assms by (simp add: float_round_def Let_def y_def e_def)
  then show ?thesis using m unfolding e_def by blast
qed

lemma float_round_err:
  assumes "0 < x"
  shows "\<bar>float_round x - x\<bar> \<le> x / 2 ^ 24"
proof -
  let ?e = "ilog2 x - 23"
  let ?y = "x / 2 powi ?e"
  have pe: "(0::rat) < 2 powi ?e" by simp
  have fr: "float_round x = of_int (rne ?y) * 2 powi ?e"
    using assms by (simp add: float_round_def Let_def)
  have "float_round x - x = (of_int (rne ?y) - ?y) * 2 powi ?e"
    using pe by (simp add: fr algebra_simps)
  then have "\<bar>float_round x - x\<bar> = \<bar>of_int (rne ?y) - ?y\<bar> * 2 powi ?e"
    using pe by (simp add: abs_mult)
  also have "\<dots> \<le> (1 / 2) * 2 powi ?e"
    using rne_err[of ?y] pe by (intro mult_right_mono) auto
  also have "\<dots> = 2 powi (ilog2 x) / 2 ^ 24"
    by (simp add: power_int_diff)
  also have "\<dots> \<le> x / 2 ^ 24"
    using ilog2_le[OF assms] by (simp add: divide_right_mono)
  finally show ?thesis .
qed

lemma float_round_of_int:
  assumes "0 \<le> n" "n < 2 ^ 24"
  shows "float_round (of_int n) = of_int n"
proof (cases "n = 0")
  case True
  then show ?thesis by (simp add: float_round_def)
next
  case False
  then have n: "0 < n" using assms by simp
  let ?x = "of_int n :: rat"
  have x: "0 < ?x" using n by simp
  let ?e = "ilog2 ?x - 23"
  have "(2::rat) powi (ilog2 ?x) \<le> ?x" using ilog2_le[OF x] .
  also have "?x < of_int (2 ^ 24)" using assms(2) by (simp only: of_int_less_iff)
  finally have "(2::rat) powi (ilog2 ?x) < 2 powi 24" by simp
  then have "ilog2 ?x < 24" by (rule power_int_le_imp_less_exp[rotated]) simp_all
  then have e: "?e \<le> 0" by simp
  have pw: "(2::rat) powi ?e = 1 / 2 ^ nat (- ?e)"
    using e by (simp add: power_int_def field_simps)
  have "?x / 2 powi ?e = of_int (n * 2 ^ nat (- ?e))"
    by (simp add: pw)
  then have "rne (?x / 2 powi ?e) = n * 2 ^ nat (- ?e)"
    by (simp only: rne_of_int)
  then have "float_round ?x = of_int (n * 2 ^ nat (- ?e)) * 2 powi ?e"
    using x by (simp add: float_round_def Let_def)
  also have "\<dots> = ?x" by (simp add: pw)
  finally show ?thesis .
qed

lemma float_round_nonneg: "0 \<le> x \<Longrightarrow> 0 \<le> float_round x"
  by (simp add: float_round_def Let_def rne_nonneg)

lemma float_round_pos:
  assumes "0 < x"
  shows "0 < float_round x"
proof -
  have "\<bar>float_round x - x\<bar> \<le> x / 2 ^ 24" using float_round_err[OF assms] .
  moreover have "x / 2 ^ 24 < x" using assms by simp
  ultimately show ?thesis by linarith
qed

lemma scaled_value_close:
  fixes s l M :: int
  assumes s: "0 < s" and l: "0 < l" and M: "0 < M" and sM: "s * M < 2 ^ 23"
  defines "v \<equiv> float_round (of_int s * float_round (of_int M / of_int l))"
  shows "\<bar>v * of_int l - of_int (s * M)\<bar> < 1" and "0 \<le> v"
proof -
  define u :: rat where "u = 1 / 2 ^ 24"
  define a :: rat where "a = of_int M / of_int l"
  define f where "f = float_round a"
  define E where "E = of_int s * a"
  define x where "x = of_int s * f"
  have u: "0 < u" "u < 1" by (simp_all add: u_def)
  have a: "0 < a" using l M by (simp add: a_def)
  have E: "0 < E" using a s by (simp add: E_def)
  have f_err: "\<bar>f - a\<bar> \<le> a * u" using float_round_err[OF a] by (simp add: f_def u_def)
  have "a * u < a" using a u by simp
  with f_err have f: "0 < f" by linarith
  have x: "0 < x" using f s by (simp add: x_def)
  have "\<bar>x - E\<bar> = of_int s * \<bar>f - a\<bar>"
    using s by (simp add: x_def E_def abs_mult flip: right_diff_distrib)
  also have "\<dots> \<le> of_int s * (a * u)"
    using f_err s by (intro mult_left_mono) auto
  finally have x_err: "\<bar>x - E\<bar> \<le> E * u" by (simp add: E_def mult.assoc)
  have v_err: "\<bar>v - x\<bar> \<le> x * u"
    using float_round_err[OF x] by (simp add: v_def x_def f_def a_def u_def)
  have "x \<le> E + E * u" using x_err by linarith
  then have "x * u \<le> (E + E * u) * u" using u by (intro mult_right_mono) auto
  also have "\<dots> = E * u + E * u * u" by (simp add: algebra_simps)
  finally have "\<bar>v - x\<bar> \<le> E * u + E * u * u" using v_err by linarith
  with x_err have "\<bar>v - E\<bar> \<le> E * u + (E * u + E * u * u)" by linarith
  also have "\<dots> = E * (2 * u + u * u)" by (simp add: algebra_simps)
  finally have vE: "\<bar>v - E\<bar> \<le> E * (2 * u + u * u)" .
  have El: "E * of_int l = of_int (s * M)" using l by (simp add: E_def a_def)
  have "v * of_int l - of_int (s * M) = (v - E) * of_int l"
    unfolding El[symmetric] by (simp add: left_diff_distrib)
  then have "\<bar>v * of_int l - of_int (s * M)\<bar> = \<bar>v - E\<bar> * of_int l"
    using l by (simp add: abs_mult)
  also have "\<dots> \<le> (E * (2 * u + u * u)) * of_int l"
    using vE l by (intro mult_right_mono) auto
  also have "\<dots> = of_int (s * M) * (2 * u + u * u)"
    unfolding El[symmetric] by (simp add: mult.assoc mult.commute)
  also have "\<dots> \<le> of_int (2 ^ 23 - 1) * (2 * u + u * u)"
  proof -
    have "s * M \<le> 2 ^ 23 - 1" using sM by simp
    then have "(of_int (s * M) :: rat) \<le> of_int (2 ^ 23 - 1)" by (simp only: of_int_le_iff)
    then show ?thesis using u by (intro mult_right_mono) auto
  qed
  also have "\<dots> < 1" by (simp add: u_def)
  finally show "\<bar>v * of_int l - of_int (s * M)\<bar> < 1" .
  show "0 \<le> v" unfolding v_def using x by (intro float_round_nonneg) (simp add: x_def f_def a_def)
qed

lemma scaled_side:
  fixes s l M :: int
  assumes s: "0 < s" and sl: "s \<le> l" and M: "0 < M" and sM: "s * M < 2 ^ 23" and l24: "l < 2 ^ 24"
  shows "\<exists>p. to_int (fmul (of_int32 s) (fdiv (of_int32 M) (of_int32 l))) = Some p
           \<and> 0 \<le> p \<and> p \<le> M \<and> s * M - l \<le> p * l \<and> p * l \<le> s * M"
proof -
  define v where "v = float_round (of_int s * float_round (of_int M / of_int l))"
  have l: "0 < l" using s sl by simp
  have "M * 1 \<le> M * s" using s M by (intro mult_left_mono) auto
  then have M24: "M < 2 ^ 24" using sM by (simp add: mult.commute)
  have close: "\<bar>v * of_int l - of_int (s * M)\<bar> < 1" and v0: "0 \<le> v"
    using scaled_value_close[OF s l M sM] by (simp_all add: v_def)
  define p where "p = \<lfloor>v\<rfloor>"
  have p0: "0 \<le> p" using v0 by (simp add: p_def)
  have pv: "of_int p \<le> v" "v < of_int p + 1" by (simp_all add: p_def) linarith
  have "of_int p * of_int l \<le> v * (of_int l :: rat)"
    using pv(1) l by (intro mult_right_mono) auto
  also have "\<dots> < of_int (s * M) + 1" using close by linarith
  finally have "(of_int (p * l) :: rat) < of_int (s * M + 1)" by simp
  then have "p * l < s * M + 1" by (simp only: of_int_less_iff)
  then have up: "p * l \<le> s * M" by simp
  have "(of_int (s * M) :: rat) - 1 < v * of_int l" using close by linarith
  also have "\<dots> < (of_int p + 1) * of_int l"
    using pv(2) l by (intro mult_strict_right_mono) auto
  finally have "(of_int (s * M - 1) :: rat) < of_int ((p + 1) * l)" by simp
  then have "s * M - 1 < (p + 1) * l" by (simp only: of_int_less_iff)
  then have low: "s * M - l \<le> p * l" by (simp add: algebra_simps)
  have "p * l \<le> M * l" using up sl M by (smt (verit) mult_left_mono mult.commute)
  then have pM: "p \<le> M" using l by simp
  have conv: "of_int32 s = Finite (of_int s)" "of_int32 l = Finite (of_int l)"
    "of_int32 M = Finite (of_int M)"
    using s l M sl l24 M24 by (simp_all add: of_int32_def float_round_of_int)
  have "to_int (fmul (of_int32 s) (fdiv (of_int32 M) (of_int32 l))) = to_int (Finite v)"
    using l by (simp add: conv v_def)
  also have "\<dots> = (if - (2 ^ 31) \<le> p \<and> p < 2 ^ 31 then Some p else None)"
    unfolding to_int.simps Let_def p_def using v0 by (simp only: if_True)
  also have "\<dots> = Some p" using p0 pM M24 by simp
  finally show ?thesis using p0 pM low up by blast
qed

lemma scaled_zero_side:
  assumes "0 < l"
  shows "to_int (fmul (of_int32 0) (fdiv (of_int32 M) (of_int32 l))) = Some 0"
proof -
  have "float_round (of_int l) \<noteq> 0" using float_round_pos[of "of_int l"] assms by simp
  then show ?thesis by (simp add: of_int32_def float_round_def)
qed



section \<open>Scaling policy\<close>

lemma scaled_geometry_800_600:
  "scaled_geometry 256 \<lparr>width = 800, height = 600\<rparr> = Some \<lparr>width = 256, height = 192\<rparr>"
  by code_simp

lemma scaled_geometry_600_800:
  "scaled_geometry 256 \<lparr>width = 600, height = 800\<rparr> = Some \<lparr>width = 192, height = 256\<rparr>"
  by code_simp

lemma scaled_geometry_41_41:
  "scaled_geometry 256 \<lparr>width = 41, height = 41\<rparr> = Some \<lparr>width = 256, height = 255\<rparr>"
  by code_simp

lemma scaled_geometry_large:
  "scaled_geometry 256 \<lparr>width = 212326, height = 221859\<rparr> = Some \<lparr>width = 244, height = 256\<rparr>"
  by code_simp

lemma scaled_geometry_1920_1080:
  "scaled_geometry 256 \<lparr>width = 1920, height = 1080\<rparr> = Some \<lparr>width = 256, height = 144\<rparr>"
  by code_simp

lemma scaled_geometry_1600_1200:
  "scaled_geometry 256 \<lparr>width = 1600, height = 1200\<rparr> = Some \<lparr>width = 256, height = 192\<rparr>"
  by code_simp

lemma scaled_geometry_degenerate:
  "0 < h \<Longrightarrow> scaled_geometry M \<lparr>width = 0, height = h\<rparr> = Some \<lparr>width = 0, height = M\<rparr>"
  "0 < w \<Longrightarrow> scaled_geometry M \<lparr>width = w, height = 0\<rparr> = Some \<lparr>width = M, height = 0\<rparr>"
  by (simp_all add: scaled_geometry_def scaled_zero_side)

lemma scaled_geometry_0_600:
  "scaled_geometry 256 \<lparr>width = 0, height = 600\<rparr> = Some \<lparr>width = 0, height = 256\<rparr>"
  by (simp add: scaled_geometry_degenerate)

lemma scale_256_600: "fdiv (of_int32 256) (of_int32 600) = Finite (7158279 / 16777216)"
  by code_simp

lemma scale_256_800: "fdiv (of_int32 256) (of_int32 800) = Finite (5368709 / 16777216)"
  by code_simp

text \<open>
  C1 (as stated, refuted). For a window of 212326 by 221859 pixels and \<open>max_dimension = 256\<close>
  the exact proportional width is a little above 245, the single-precision product falls
  just below 245 and is truncated to 244: more than one pixel away.
\<close>

theorem scaling_claim_counterexample: "\<not> scaling_claim 256 212326 221859"
  by (simp add: scaling_claim_def scaled_geometry_large)

text \<open>
  C1 (amended). For positive sides and a positive \<open>max_dimension\<close> \<open>M\<close>, with the shorter
  side times \<open>M\<close> below \<open>2\<^sup>2\<^sup>3\<close> and the longer side below \<open>2\<^sup>2\<^sup>4\<close>, \<^verbatim>\<open>request_stream\<close> computes a
  preview whose longer side is exactly \<open>M\<close> and whose shorter side \<open>p\<close> is the truncated
  single-precision product: it satisfies \<open>s * M / l - 1 \<le> p \<le> s * M / l\<close>, so it is within
  one pixel of the exact value and never above it. A window of 800 by 600 with
  \<open>M = 256\<close> gives 256 by 192.
\<close>

theorem scaled_geometry_one_pixel:
  assumes "0 < w" "0 < h" "0 < M" "min w h * M < 2 ^ 23" "max w h < 2 ^ 24"
  shows "(\<exists>pw ph. scaled_geometry M \<lparr>width = w, height = h\<rparr> = Some \<lparr>width = pw, height = ph\<rparr>
            \<and> max pw ph = M
            \<and> (if w < h then ph = M \<and> w * M - h \<le> pw * h \<and> pw * h \<le> w * M
                else pw = M \<and> h * M - w \<le> ph * w \<and> ph * w \<le> h * M))
         \<and> scaling_claim M w h
         \<and> scaled_geometry 256 \<lparr>width = 800, height = 600\<rparr> = Some \<lparr>width = 256, height = 192\<rparr>"
proof (cases "w < h")
  case True
  then have "w * M < 2 ^ 23" "h < 2 ^ 24" using assms by simp_all
  from scaled_side[OF assms(1) _ assms(3) this] True obtain p where
    p: "to_int (fmul (of_int32 w) (fdiv (of_int32 M) (of_int32 h))) = Some p"
       "0 \<le> p" "p \<le> M" "w * M - h \<le> p * h" "p * h \<le> w * M"
    by auto
  have sg: "scaled_geometry M \<lparr>width = w, height = h\<rparr> = Some \<lparr>width = p, height = M\<rparr>"
    using True p(1) by (simp add: scaled_geometry_def)
  have "max p M = M" using p(3) by simp
  moreover have "\<bar>p * h - w * M\<bar> \<le> h" using p(4,5) assms(2) by linarith
  ultimately show ?thesis
    using True p sg by (simp add: scaling_claim_def scaled_geometry_800_600)
next
  case False
  then have "h * M < 2 ^ 23" "w < 2 ^ 24" "h \<le> w" using assms by simp_all
  from scaled_side[OF assms(2) this(3) assms(3) this(1,2)] obtain p where
    p: "to_int (fmul (of_int32 h) (fdiv (of_int32 M) (of_int32 w))) = Some p"
       "0 \<le> p" "p \<le> M" "h * M - w \<le> p * w" "p * w \<le> h * M"
    by auto
  have sg: "scaled_geometry M \<lparr>width = w, height = h\<rparr> = Some \<lparr>width = M, height = p\<rparr>"
    using False p(1) by (simp add: scaled_geometry_def)
  have "max M p = M" using p(3) by simp
  moreover have "\<bar>p * w - h * M\<bar> \<le> w" using p(4,5) assms(1) by linarith
  ultimately show ?thesis
    using False p sg by (simp add: scaling_claim_def scaled_geometry_800_600)
qed

theorem scaled_geometry_one_pixel_witness:
  "scaling_claim 256 800 600 \<and> scaling_claim 256 41 41"
  using scaled_geometry_one_pixel[of 800 600 256] scaled_geometry_one_pixel[of 41 41 256]
  by simp



section \<open>The operations in closed form\<close>

lemma destroy_render_instance_manager_eq:
  "destroy_render_instance_manager s = s\<lparr>instance_manager := None\<rparr>"
  by (cases "instance_manager s") (simp_all add: destroy_render_instance_manager_def)

lemma rem_hooks_Some:
  "rem_hooks (Some w) s =
     Some (if hooks_set s (Some w) = Some True
           then s\<lparr>post_hooks := (post_hooks s)(w := False),
                   effect_hooks := (effect_hooks s)(w := False),
                   hooks_set := (hooks_set s)(Some w \<mapsto> False)\<rparr>
           else s\<lparr>hooks_set := (hooks_set s)(Some w \<mapsto> False)\<rparr>)"
  by (cases "hooks_set s (Some w)")
     (auto simp: rem_hooks_def hooks_set_touch_def hooks_set_get_def Let_def fun_upd_idem)

lemma rem_hooks_None:
  "hooks_set s None \<noteq> Some True \<Longrightarrow>
   rem_hooks None s = Some (s\<lparr>hooks_set := (hooks_set s)(None \<mapsto> False)\<rparr>)"
  by (cases "hooks_set s None")
     (auto simp: rem_hooks_def hooks_set_touch_def hooks_set_get_def Let_def fun_upd_idem)

lemma rem_hooks_False:
  "hooks_set s p = Some False \<Longrightarrow> rem_hooks p s = Some s"
  by (simp add: rem_hooks_def hooks_set_touch_def hooks_set_get_def Let_def)

lemma bind_view_eq:
  "bind_view v s =
     s\<lparr>view_unmapped_conn := insert v (view_unmapped_conn s), instance_manager := Some v,
       current_preview := Some v, calls := calls s @ [View_damage v]\<rparr>"
  by (simp add: bind_view_def destroy_render_instance_manager_eq create_render_instance_manager_def
      call_def Let_def)

lemma add_hooks_eq:
  "add_hooks w s =
     (if hooks_set s (Some w) = Some True then s
      else s\<lparr>post_hooks := (post_hooks s)(w := True),
              effect_hooks := (effect_hooks s)(w := True),
              hooks_set := (hooks_set s)(Some w \<mapsto> True)\<rparr>)"
  by (cases "hooks_set s (Some w)")
     (auto simp: add_hooks_def hooks_set_touch_def hooks_set_get_def Let_def)

lemma destroy_output_fields [simp]:
  "drop_frame (destroy_output s) = drop_frame s"
  "frame_skip (destroy_output s) = frame_skip s"
  "current_size (destroy_output s) = current_size s"
  "max_dimension (destroy_output s) = max_dimension s"
  "find_view_by_id (destroy_output s) = find_view_by_id s"
  "toplevel (destroy_output s) = toplevel s"
  "get_geometry (destroy_output s) = get_geometry s"
  "headless_backend (destroy_output s) = headless_backend s"
  "next_handle (destroy_output s) = next_handle s"
  "output_mode (destroy_output s) = output_mode s"
  "output_name (destroy_output s) = output_name s"
  by (simp_all add: destroy_output_def destroy_render_instance_manager_eq rem_hooks_Some call_def
      Let_def split: option.splits)

lemma destroy_output_found:
  assumes "find_output s ''live-preview'' = Some w"
  shows "layout (destroy_output s) = removeAll w (layout s)"
    "calls (destroy_output s) = calls s @ [Output_layout_remove w, Output_destroy w]"
    "wo (destroy_output s) = (if wo s = Some w then None else wo s)"
    "current_preview (destroy_output s) = None"
    "instance_manager (destroy_output s) = None"
    "view_unmapped_conn (destroy_output s) = {}"
    "on_output_pre_remove_conn (destroy_output s) = {}"
    "hooks_set (destroy_output s) = (hooks_set s)(Some w \<mapsto> False)"
  using assms
  by (auto simp: destroy_output_def destroy_render_instance_manager_eq rem_hooks_Some call_def
      Let_def)

lemma resize_output_fields [simp]:
  "drop_frame (resize_output vg s) = drop_frame s"
  "frame_skip (resize_output vg s) = frame_skip s"
  "current_size (resize_output vg s) = current_size s"
  "max_dimension (resize_output vg s) = max_dimension s"
  "find_view_by_id (resize_output vg s) = find_view_by_id s"
  "toplevel (resize_output vg s) = toplevel s"
  "get_geometry (resize_output vg s) = get_geometry s"
  "headless_backend (resize_output vg s) = headless_backend s"
  "next_handle (resize_output vg s) = next_handle s"
  by (simp_all add: resize_output_def call_def Let_def split: option.splits)

lemma add_hooks_fields [simp]:
  "drop_frame (add_hooks w s) = drop_frame s"
  "frame_skip (add_hooks w s) = frame_skip s"
  "current_size (add_hooks w s) = current_size s"
  "wo (add_hooks w s) = wo s"
  "layout (add_hooks w s) = layout s"
  "calls (add_hooks w s) = calls s"
  "next_handle (add_hooks w s) = next_handle s"
  "output_mode (add_hooks w s) = output_mode s"
  "output_name (add_hooks w s) = output_name s"
  "view_unmapped_conn (add_hooks w s) = view_unmapped_conn s"
  "headless_backend (add_hooks w s) = headless_backend s"
  "toplevel (add_hooks w s) = toplevel s"
  by (simp_all add: add_hooks_eq)

lemma create_output_fields [simp]:
  "drop_frame (create_output vg s) = drop_frame s"
  "frame_skip (create_output vg s) = frame_skip s"
  "current_size (create_output vg s) = current_size s"
  "wo (create_output vg s) = Some (next_handle s)"
  "layout (create_output vg s) = layout s @ [next_handle s]"
  "next_handle (create_output vg s) = next_handle s + 1"
  "output_mode (create_output vg s) = (output_mode s)(next_handle s := vg)"
  "output_name (create_output vg s) = (output_name s)(next_handle s := ''live-preview'')"
  "calls (create_output vg s) =
     calls s @ (if headless_backend s then [] else [Headless_backend_create]) @ [Headless_add_output vg]"
  "view_unmapped_conn (create_output vg s) = view_unmapped_conn s"
  "headless_backend (create_output vg s) = True"
  "toplevel (create_output vg s) = toplevel s"
  by (simp_all add: create_output_def call_def Let_def)

lemma bind_view_fields [simp]:
  "drop_frame (bind_view v s) = drop_frame s"
  "frame_skip (bind_view v s) = frame_skip s"
  "current_size (bind_view v s) = current_size s"
  "wo (bind_view v s) = wo s"
  "layout (bind_view v s) = layout s"
  "next_handle (bind_view v s) = next_handle s"
  "output_mode (bind_view v s) = output_mode s"
  "output_name (bind_view v s) = output_name s"
  "calls (bind_view v s) = calls s @ [View_damage v]"
  "current_preview (bind_view v s) = Some v"
  "instance_manager (bind_view v s) = Some v"
  "view_unmapped_conn (bind_view v s) = insert v (view_unmapped_conn s)"
  "headless_backend (bind_view v s) = headless_backend s"
  "toplevel (bind_view v s) = toplevel s"
  by (simp_all add: bind_view_eq)

lemma request_stream_same_size:
  assumes "find_view_by_id s i = Some v" "toplevel s v"
    "scaled_geometry (max_dimension s) (get_geometry s v) = Some (current_size s)"
    "wo s = Some w"
  shows "request_stream i s = Some (Json_ok, bind_view v (add_hooks w (s\<lparr>drop_frame := frame_skip s\<rparr>)))"
  using assms by (simp add: request_stream_def Let_def)

lemma request_stream_resize:
  assumes "find_view_by_id s i = Some v" "toplevel s v"
    "scaled_geometry (max_dimension s) (get_geometry s v) = Some vg"
    "width vg \<noteq> width (current_size s) \<or> height vg \<noteq> height (current_size s)"
    "wo s = Some w"
  shows "request_stream i s =
           (let s2 = resize_output vg (s\<lparr>drop_frame := frame_skip s, current_size := vg\<rparr>)
            in case wo s2 of
                 Some w' \<Rightarrow> Some (Json_ok, bind_view v (add_hooks w' s2))
               | None \<Rightarrow> Some (Json_ok, bind_view v (create_output vg s2)))"
  using assms by (simp add: request_stream_def Let_def)

lemma request_stream_resolved:
  assumes "find_view_by_id s i = Some v" "toplevel s v"
    "scaled_geometry (max_dimension s) (get_geometry s v) = Some vg"
  shows "\<exists>s'. request_stream i s = Some (Json_ok, s')
           \<and> drop_frame s' = frame_skip s \<and> frame_skip s' = frame_skip s
           \<and> current_size s' = vg \<and> current_preview s' = Some v \<and> instance_manager s' = Some v
           \<and> toplevel s' = toplevel s"
proof (cases "width vg \<noteq> width (current_size s) \<or> height vg \<noteq> height (current_size s)")
  case True
  then show ?thesis using assms
    by (cases "wo (resize_output vg (s\<lparr>drop_frame := frame_skip s, current_size := vg\<rparr>))")
       (simp_all add: request_stream_def Let_def)
next
  case False
  then have "vg = current_size s" by simp
  then show ?thesis using assms False
    by (cases "wo s") (simp_all add: request_stream_def Let_def)
qed

lemma request_stream_replies:
  assumes "request_stream i s = Some (r, s')"
  shows "r = Json_ok \<or> r = Json_error ''no such view'' \<or> r = Json_error ''view is not a toplevel''"
  using assms
  by (auto simp: request_stream_def Let_def split: option.splits if_splits)

lemma view_unmapped_bound:
  assumes "current_preview s = Some v" "wo s = Some w"
  shows "view_unmapped v s =
           Some (if hooks_set s (Some w) = Some True
                 then s\<lparr>view_unmapped_conn := {}, instance_manager := None,
                         current_preview := None,
                         post_hooks := (post_hooks s)(w := False),
                         effect_hooks := (effect_hooks s)(w := False),
                         hooks_set := (hooks_set s)(Some w \<mapsto> False)\<rparr>
                 else s\<lparr>view_unmapped_conn := {}, instance_manager := None,
                         current_preview := None,
                         hooks_set := (hooks_set s)(Some w \<mapsto> False)\<rparr>)"
  using assms
  by (simp add: view_unmapped_def destroy_render_instance_manager_eq rem_hooks_Some Let_def)

lemma captures_call:
  "captures (call c s) = captures s + (if is_snapshot c then 1 else 0)"
  by (simp add: captures_def call_def)

lemma capture_effect:
  assumes "toplevel s v"
  shows "\<exists>s'. capture v s = Some s'
           \<and> drop_frame s' = drop_frame s \<and> frame_skip s' = frame_skip s
           \<and> current_preview s' = current_preview s \<and> toplevel s' = toplevel s
           \<and> output_scale s' = output_scale s
           \<and> captures s' = captures s + 1
           \<and> calls s' = calls s @ [View_damage v,
                 Take_snapshot v (fdiv (of_int32 (max_dimension s)) (of_int32 (width (get_geometry s v)))),
                 Blit (current_size s), View_damage v]"
  using assms by (simp add: capture_def call_def captures_def Let_def)



section \<open>The concrete session\<close>

lemma ex_request_7: "request_stream 7 ex_idle = Some (Json_ok, ex_streaming)"
  by (simp add: request_stream_def ex_idle_def ex_views_def ex_geometry_def scaled_geometry_800_600
      resize_output_def create_output_def add_hooks_def hooks_set_touch_def hooks_set_get_def
      bind_view_def destroy_render_instance_manager_def create_render_instance_manager_def
      call_def ex_streaming_def ex_bound_def Let_def)

lemma ex_request_8: "request_stream 8 ex_idle = Some (Json_ok, ex_portrait)"
  by (simp add: request_stream_def ex_idle_def ex_views_def ex_geometry_def scaled_geometry_600_800
      resize_output_def create_output_def add_hooks_def hooks_set_touch_def hooks_set_get_def
      bind_view_def destroy_render_instance_manager_def create_render_instance_manager_def
      call_def ex_portrait_def ex_bound_def Let_def)

lemma ex_views_geometry:
  "ex_views 7 = Some 7" "ex_views 8 = Some 8" "ex_views 11 = Some 11" "ex_views 12 = Some 12"
  "ex_geometry 7 = \<lparr>width = 800, height = 600\<rparr>"
  "ex_geometry 8 = \<lparr>width = 600, height = 800\<rparr>"
  "ex_geometry 11 = \<lparr>width = 1600, height = 1200\<rparr>"
  "ex_geometry 12 = \<lparr>width = 1920, height = 1080\<rparr>"
  by (simp_all add: ex_views_def ex_geometry_def)

lemma ex_streaming_fields:
  "wo ex_streaming = Some 2" "find_output ex_streaming ''live-preview'' = Some 2"
  "next_handle ex_streaming = 3" "max_dimension ex_streaming = 256"
  "find_view_by_id ex_streaming = ex_views" "get_geometry ex_streaming = ex_geometry"
  "toplevel ex_streaming 7" "toplevel ex_streaming 8" "toplevel ex_streaming 11"
  "toplevel ex_streaming 12"
  "current_size ex_streaming = \<lparr>width = 256, height = 192\<rparr>"
  "current_preview ex_streaming = Some 7" "layout ex_streaming = [1, 2]"
  "headless_backend ex_streaming" "hooks_set ex_streaming None = None"
  "output_mode ex_streaming 2 = \<lparr>width = 256, height = 192\<rparr>"
  "test_state ex_streaming 2 \<lparr>width = 256, height = 144\<rparr>"
  "\<not> test_state ex_streaming 2 \<lparr>width = 192, height = 256\<rparr>"
  "frame_skip ex_streaming = 2" "drop_frame ex_streaming = 2"
  by (simp_all add: ex_streaming_def ex_bound_def ex_idle_def find_output_def)

lemma ex_portrait_fields:
  "current_preview ex_portrait = Some 8" "toplevel ex_portrait 8"
  "frame_skip ex_portrait = 2" "drop_frame ex_portrait = 2"
  "max_dimension ex_portrait = 256" "get_geometry ex_portrait 8 = \<lparr>width = 600, height = 800\<rparr>"
  "get_output ex_portrait 8 = 1" "output_scale ex_portrait 1 = Finite 1"
  "calls ex_portrait = [Headless_backend_create,
      Headless_add_output \<lparr>width = 192, height = 256\<rparr>, View_damage 8]"
  "current_size ex_portrait = \<lparr>width = 192, height = 256\<rparr>"
  by (simp_all add: ex_portrait_def ex_bound_def ex_idle_def ex_geometry_def)



section \<open>An invariant of the synthetic output\<close>

lemma surface_inv_find:
  assumes "surface_inv s"
  shows "find_output s ''live-preview'' = wo s"
proof (cases "wo s")
  case None
  then have "\<forall>out \<in> set (layout s). output_name s out \<noteq> ''live-preview''"
    using assms by (simp add: surface_inv_def)
  then show ?thesis using None by (simp add: find_output_def find_None_iff)
next
  case (Some w)
  then have w: "w \<in> set (layout s)"
    and only: "\<forall>out \<in> set (layout s). (output_name s out = ''live-preview'') = (out = w)"
    using assms by (auto simp: surface_inv_def)
  have "List.find (\<lambda>out. output_name s out = ''live-preview'') xs = Some w"
    if "w \<in> set xs" "\<forall>out \<in> set xs. (output_name s out = ''live-preview'') = (out = w)" for xs
    using that by (induction xs) auto
  from this[OF w only] show ?thesis using Some by (simp add: find_output_def)
qed

lemma surface_inv_fresh:
  assumes "surface_inv s" "wo s = Some w"
  shows "next_handle s \<noteq> w"
  using assms by (auto simp: surface_inv_def)

lemma surface_inv_destroy_output:
  assumes "surface_inv s"
  shows "surface_inv (destroy_output s) \<and> wo (destroy_output s) = None"
proof (cases "wo s")
  case None
  then have "find_output s ''live-preview'' = None" using surface_inv_find[OF assms] by simp
  then show ?thesis using assms None by (simp add: destroy_output_def)
next
  case (Some w)
  then have f: "find_output s ''live-preview'' = Some w" using surface_inv_find[OF assms] by simp
  show ?thesis
    using assms Some
    by (auto simp: surface_inv_def destroy_output_found[OF f])
qed

lemma surface_inv_create_output:
  assumes "surface_inv s" "wo s = None"
  shows "surface_inv (create_output vg s)"
  using assms
  by (auto simp: surface_inv_def create_output_def add_hooks_eq call_def Let_def)

lemma surface_inv_resize_output:
  assumes "surface_inv s"
  shows "surface_inv (resize_output vg s)"
proof (cases "wo s")
  case None
  then show ?thesis using assms by (simp add: resize_output_def)
next
  case (Some w)
  show ?thesis
  proof (cases "test_state s w vg")
    case True
    then show ?thesis using assms Some
      by (simp add: resize_output_def call_def Let_def surface_inv_def)
  next
    case False
    have "surface_inv (call (Output_test_state w vg) s)"
      using assms by (simp add: surface_inv_def call_def)
    from surface_inv_destroy_output[OF this] show ?thesis
      using False Some by (simp add: resize_output_def call_def Let_def)
  qed
qed

lemma surface_inv_bind_add:
  assumes "surface_inv s"
  shows "surface_inv (bind_view v (add_hooks w s))"
  using assms by (auto simp: surface_inv_def bind_view_eq add_hooks_eq)

lemma surface_inv_bind:
  assumes "surface_inv s"
  shows "surface_inv (bind_view v s)"
  using assms by (auto simp: surface_inv_def bind_view_eq)

lemma surface_inv_request_stream:
  assumes "surface_inv s" "request_stream i s = Some (r, s')"
  shows "surface_inv s'"
proof (cases "r = Json_ok")
  case False
  then have "s' = s" using assms(2)
    by (auto simp: request_stream_def Let_def split: option.splits if_splits)
  then show ?thesis using assms(1) by simp
next
  case True
  from assms(2) True obtain v vg where r: "find_view_by_id s i = Some v" "toplevel s v"
    "scaled_geometry (max_dimension s) (get_geometry s v) = Some vg"
    by (auto simp: request_stream_def Let_def split: option.splits if_splits)
  define s2 where "s2 = (if width vg \<noteq> width (current_size s) \<or> height vg \<noteq> height (current_size s)
                         then resize_output vg (s\<lparr>drop_frame := frame_skip s, current_size := vg\<rparr>)
                         else s\<lparr>drop_frame := frame_skip s\<rparr>)"
  have i0: "surface_inv (s\<lparr>drop_frame := frame_skip s, current_size := vg\<rparr>)"
    "surface_inv (s\<lparr>drop_frame := frame_skip s\<rparr>)"
    using assms(1) by (simp_all add: surface_inv_def)
  have i2: "surface_inv s2"
    unfolding s2_def using i0 surface_inv_resize_output by simp
  have s': "s' = (case wo s2 of Some w \<Rightarrow> bind_view v (add_hooks w s2)
                   | None \<Rightarrow> bind_view v (create_output vg s2))"
    using assms(2) r by (auto simp: request_stream_def Let_def s2_def split: option.splits)
  show ?thesis
  proof (cases "wo s2")
    case None
    then show ?thesis using s' surface_inv_bind[OF surface_inv_create_output[OF i2 None]] by simp
  next
    case (Some w)
    then show ?thesis using s' surface_inv_bind_add[OF i2] by simp
  qed
qed

lemma surface_inv_rem_hooks:
  assumes "surface_inv s" "rem_hooks (wo s) s = Some s'"
  shows "surface_inv s'"
proof (cases "wo s")
  case None
  then show ?thesis using assms
    by (auto simp: rem_hooks_None surface_inv_def)
next
  case (Some w)
  then show ?thesis using assms
    by (auto simp: rem_hooks_Some surface_inv_def split: if_splits)
qed

lemma surface_inv_release_output:
  assumes "surface_inv s" "release_output s = Some (r, s')"
  shows "surface_inv s'"
proof -
  define t where "t = s\<lparr>instance_manager := None, view_unmapped_conn := {}\<rparr>"
  have t: "surface_inv t" "wo t = wo s" using assms(1) by (simp_all add: surface_inv_def t_def)
  have "rem_hooks (wo t) t = Some s'"
    using assms(2)
    by (auto simp: release_output_def destroy_render_instance_manager_eq Let_def t_def
        split: option.splits)
  from surface_inv_rem_hooks[OF t(1) this] show ?thesis .
qed

lemma surface_inv_view_unmapped:
  assumes "surface_inv s" "view_unmapped v s = Some s'"
  shows "surface_inv s'"
proof (cases "Some v = current_preview s")
  case False
  then show ?thesis using assms by (simp add: view_unmapped_def)
next
  case True
  define t where "t = s\<lparr>view_unmapped_conn := {}, instance_manager := None, current_preview := None\<rparr>"
  have t: "surface_inv t" using assms(1) by (simp add: surface_inv_def t_def)
  have "rem_hooks (wo t) t = Some s'"
    using assms(2) True
    by (simp add: view_unmapped_def destroy_render_instance_manager_eq Let_def t_def)
  from surface_inv_rem_hooks[OF t this] show ?thesis .
qed

lemma surface_inv_post_hook:
  assumes "surface_inv s" "post_hook s = Some s'"
  shows "surface_inv s'"
  using assms
  by (auto simp: post_hook_def capture_def call_def Let_def surface_inv_def
      split: option.splits if_splits)

lemma surface_inv_ex_idle: "surface_inv ex_idle"
  by (simp add: surface_inv_def ex_idle_def)


text \<open>The hook map and the registrations stay in step.\<close>

lemma hooks_inv_same:
  assumes "hooks_inv s" "post_hooks s' = post_hooks s" "effect_hooks s' = effect_hooks s"
    "\<And>out. hooks_set s' (Some out) = hooks_set s (Some out)" "wo s' = wo s"
  shows "hooks_inv s'"
  using assms unfolding hooks_inv_def by simp

lemma hooks_inv_removed:
  assumes inv: "hooks_inv s"
    and hs: "hooks_set s' = (hooks_set s)(Some w \<mapsto> False)"
    and ph: "post_hooks s' = (if hooks_set s (Some w) = Some True
                              then (post_hooks s)(w := False) else post_hooks s)"
    and eh: "effect_hooks s' = (if hooks_set s (Some w) = Some True
                                then (effect_hooks s)(w := False) else effect_hooks s)"
    and wo: "wo s' = wo s \<or> wo s' = None" "wo s = Some w"
  shows "hooks_inv s'"
  unfolding hooks_inv_def
proof (intro conjI allI impI)
  fix out
  have P: "\<And>x. post_hooks s x = (hooks_set s (Some x) = Some True)"
    and E: "\<And>x. effect_hooks s x = (hooks_set s (Some x) = Some True)"
    using inv unfolding hooks_inv_def by blast+
  show "post_hooks s' out = (hooks_set s' (Some out) = Some True)"
    by (cases "out = w") (simp_all add: hs ph P)
  show "effect_hooks s' out = (hooks_set s' (Some out) = Some True)"
    by (cases "out = w") (simp_all add: hs eh E)
next
  fix out
  assume a: "hooks_set s' (Some out) = Some True"
  then have ne: "out \<noteq> w" by (auto simp: hs)
  then have "hooks_set s (Some out) = Some True" using a by (simp add: hs)
  then have "wo s = Some out" using inv unfolding hooks_inv_def by blast
  then show "wo s' = Some out" using wo ne by simp
qed

lemma hooks_inv_added:
  assumes inv: "hooks_inv s"
    and only: "wo s = Some w \<or> (\<forall>out. hooks_set s (Some out) \<noteq> Some True)"
    and hs: "hooks_set s' = (hooks_set s)(Some w \<mapsto> True)"
    and ph: "post_hooks s' = (post_hooks s)(w := True)"
    and eh: "effect_hooks s' = (effect_hooks s)(w := True)"
    and wo: "wo s' = Some w"
  shows "hooks_inv s'"
  unfolding hooks_inv_def
proof (intro conjI allI impI)
  fix out
  have P: "\<And>x. post_hooks s x = (hooks_set s (Some x) = Some True)"
    and E: "\<And>x. effect_hooks s x = (hooks_set s (Some x) = Some True)"
    using inv unfolding hooks_inv_def by blast+
  show "post_hooks s' out = (hooks_set s' (Some out) = Some True)"
    by (cases "out = w") (simp_all add: hs ph P)
  show "effect_hooks s' out = (hooks_set s' (Some out) = Some True)"
    by (cases "out = w") (simp_all add: hs eh E)
next
  fix out
  assume a: "hooks_set s' (Some out) = Some True"
  show "wo s' = Some out"
  proof (cases "out = w")
    case True
    then show ?thesis using wo by simp
  next
    case False
    then have t: "hooks_set s (Some out) = Some True" using a by (simp add: hs)
    then have "wo s = Some out" using inv unfolding hooks_inv_def by blast
    then show ?thesis using only t False by auto
  qed
qed


lemma destroy_output_hooks:
  assumes "find_output s ''live-preview'' = Some w"
  shows "post_hooks (destroy_output s) =
           (if hooks_set s (Some w) = Some True then (post_hooks s)(w := False) else post_hooks s)"
    "effect_hooks (destroy_output s) =
           (if hooks_set s (Some w) = Some True then (effect_hooks s)(w := False) else effect_hooks s)"
  using assms
  by (simp_all add: destroy_output_def destroy_render_instance_manager_eq rem_hooks_Some call_def
      Let_def)

lemma hooks_inv_destroy_output:
  assumes "surface_inv s" "hooks_inv s"
  shows "hooks_inv (destroy_output s)"
proof (cases "wo s")
  case None
  then have "find_output s ''live-preview'' = None" using surface_inv_find[OF assms(1)] by simp
  then show ?thesis using assms(2) by (simp add: destroy_output_def)
next
  case (Some w)
  then have f: "find_output s ''live-preview'' = Some w" using surface_inv_find[OF assms(1)] by simp
  show ?thesis
    by (rule hooks_inv_removed[OF assms(2) destroy_output_found(8)[OF f]
          destroy_output_hooks[OF f] _ Some])
       (simp add: destroy_output_found(3)[OF f] Some)
qed

lemma create_output_hooks:
  assumes "hooks_set s (Some (next_handle s)) \<noteq> Some True"
  shows "hooks_set (create_output vg s) = (hooks_set s)(Some (next_handle s) \<mapsto> True)"
    "post_hooks (create_output vg s) = (post_hooks s)(next_handle s := True)"
    "effect_hooks (create_output vg s) = (effect_hooks s)(next_handle s := True)"
  using assms by (simp_all add: create_output_def add_hooks_eq call_def Let_def)

lemma hooks_inv_create_output:
  assumes "hooks_inv s" "wo s = None"
  shows "hooks_inv (create_output vg s)"
proof -
  have none: "\<forall>out. hooks_set s (Some out) \<noteq> Some True"
    using assms unfolding hooks_inv_def by auto
  then have n: "hooks_set s (Some (next_handle s)) \<noteq> Some True" by blast
  show ?thesis
    by (rule hooks_inv_added[OF assms(1) disjI2[OF none] create_output_hooks[OF n]])
       simp
qed

lemma hooks_inv_add_hooks:
  assumes "hooks_inv s" "wo s = Some w"
  shows "hooks_inv (add_hooks w s)"
proof (cases "hooks_set s (Some w) = Some True")
  case True
  then show ?thesis using assms(1) by (simp add: add_hooks_eq)
next
  case False
  show ?thesis
    by (rule hooks_inv_added[OF assms(1) disjI1[OF assms(2)]])
       (simp_all add: add_hooks_eq False assms(2))
qed

lemma hooks_inv_bind_view:
  assumes "hooks_inv s"
  shows "hooks_inv (bind_view v s)"
  by (rule hooks_inv_same[OF assms]) (simp_all add: bind_view_eq)

lemma hooks_inv_resize_output:
  assumes "surface_inv s" "hooks_inv s"
  shows "hooks_inv (resize_output vg s)"
proof (cases "wo s")
  case None
  then show ?thesis using assms by (simp add: resize_output_def)
next
  case (Some w)
  show ?thesis
  proof (cases "test_state s w vg")
    case True
    have r: "resize_output vg s =
        s\<lparr>calls := calls s @ [Output_test_state w vg, Output_commit_state w vg],
           output_mode := (output_mode s)(w := vg)\<rparr>"
      using True Some by (simp add: resize_output_def call_def Let_def)
    show ?thesis unfolding r by (rule hooks_inv_same[OF assms(2)]) simp_all
  next
    case False
    define t where "t = call (Output_test_state w vg) s"
    have "surface_inv t" using assms(1) by (simp add: surface_inv_def call_def t_def)
    moreover have "hooks_inv t"
      by (rule hooks_inv_same[OF assms(2)]) (simp_all add: call_def t_def)
    ultimately have "hooks_inv (destroy_output t)" by (rule hooks_inv_destroy_output)
    then show ?thesis
      using False Some by (simp add: resize_output_def call_def Let_def t_def)
  qed
qed

lemma hooks_inv_rem_hooks:
  assumes "hooks_inv s" "rem_hooks (wo s) s = Some s'"
  shows "hooks_inv s'"
proof (cases "wo s")
  case None
  then have nn: "hooks_set s None \<noteq> Some True"
    using assms(2) by (auto simp: rem_hooks_def hooks_set_touch_def hooks_set_get_def Let_def
        split: option.splits if_splits)
  have "s' = s\<lparr>hooks_set := (hooks_set s)(None \<mapsto> False)\<rparr>"
    using assms(2) None rem_hooks_None[OF nn] by simp
  then show ?thesis by (intro hooks_inv_same[OF assms(1)]) simp_all
next
  case (Some w)
  have s': "s' = (if hooks_set s (Some w) = Some True
           then s\<lparr>post_hooks := (post_hooks s)(w := False),
                   effect_hooks := (effect_hooks s)(w := False),
                   hooks_set := (hooks_set s)(Some w \<mapsto> False)\<rparr>
           else s\<lparr>hooks_set := (hooks_set s)(Some w \<mapsto> False)\<rparr>)"
    using assms(2) Some by (simp add: rem_hooks_Some)
  show ?thesis
    by (rule hooks_inv_removed[OF assms(1) _ _ _ _ Some]) (simp_all add: s')
qed

lemma hooks_inv_request_stream:
  assumes "surface_inv s" "hooks_inv s" "request_stream i s = Some (r, s')"
  shows "hooks_inv s'"
proof (cases "r = Json_ok")
  case False
  then have "s' = s" using assms(3)
    by (auto simp: request_stream_def Let_def split: option.splits if_splits)
  then show ?thesis using assms(2) by simp
next
  case True
  from assms(3) True obtain v vg where r: "find_view_by_id s i = Some v" "toplevel s v"
    "scaled_geometry (max_dimension s) (get_geometry s v) = Some vg"
    by (auto simp: request_stream_def Let_def split: option.splits if_splits)
  define s2 where "s2 = (if width vg \<noteq> width (current_size s) \<or> height vg \<noteq> height (current_size s)
                         then resize_output vg (s\<lparr>drop_frame := frame_skip s, current_size := vg\<rparr>)
                         else s\<lparr>drop_frame := frame_skip s\<rparr>)"
  have i0: "surface_inv (s\<lparr>drop_frame := frame_skip s, current_size := vg\<rparr>)"
    using assms(1) by (simp add: surface_inv_def)
  have h0: "hooks_inv (s\<lparr>drop_frame := frame_skip s, current_size := vg\<rparr>)"
    "hooks_inv (s\<lparr>drop_frame := frame_skip s\<rparr>)"
    by (rule hooks_inv_same[OF assms(2)]; simp)+
  have i2: "hooks_inv s2"
    unfolding s2_def using h0 hooks_inv_resize_output[OF i0 h0(1)] by simp
  have s': "s' = (case wo s2 of Some w \<Rightarrow> bind_view v (add_hooks w s2)
                   | None \<Rightarrow> bind_view v (create_output vg s2))"
    using assms(3) r by (auto simp: request_stream_def Let_def s2_def split: option.splits)
  show ?thesis
  proof (cases "wo s2")
    case None
    then show ?thesis
      using s' hooks_inv_bind_view[OF hooks_inv_create_output[OF i2 None]] by simp
  next
    case (Some w)
    then show ?thesis
      using s' hooks_inv_bind_view[OF hooks_inv_add_hooks[OF i2 Some]] by simp
  qed
qed

lemma hooks_inv_release_output:
  assumes "hooks_inv s" "release_output s = Some (r, s')"
  shows "hooks_inv s'"
proof -
  define t where "t = s\<lparr>instance_manager := None, view_unmapped_conn := {}\<rparr>"
  have t: "hooks_inv t" by (rule hooks_inv_same[OF assms(1)]) (simp_all add: t_def)
  have "rem_hooks (wo t) t = Some s'"
    using assms(2)
    by (auto simp: release_output_def destroy_render_instance_manager_eq Let_def t_def
        split: option.splits)
  from hooks_inv_rem_hooks[OF t this] show ?thesis .
qed

lemma hooks_inv_view_unmapped:
  assumes "hooks_inv s" "view_unmapped v s = Some s'"
  shows "hooks_inv s'"
proof (cases "Some v = current_preview s")
  case False
  then show ?thesis using assms by (simp add: view_unmapped_def)
next
  case True
  define t where "t = s\<lparr>view_unmapped_conn := {}, instance_manager := None, current_preview := None\<rparr>"
  have t: "hooks_inv t" by (rule hooks_inv_same[OF assms(1)]) (simp_all add: t_def)
  have "rem_hooks (wo t) t = Some s'"
    using assms(2) True
    by (simp add: view_unmapped_def destroy_render_instance_manager_eq Let_def t_def)
  from hooks_inv_rem_hooks[OF t this] show ?thesis .
qed

lemma hooks_inv_post_hook:
  assumes "hooks_inv s" "post_hook s = Some s'"
  shows "hooks_inv s'"
proof (cases "current_preview s")
  case None
  then show ?thesis using assms by (simp add: post_hook_def)
next
  case (Some v)
  show ?thesis
  proof (cases "frame_skip s \<le> drop_frame s")
    case True
    then have c: "capture v (s\<lparr>drop_frame := 0\<rparr>) = Some s'"
      using assms(2) Some by (simp add: post_hook_def)
    then have tl: "toplevel (s\<lparr>drop_frame := 0\<rparr>) v"
      by (auto simp: capture_def split: if_splits)
    have "post_hooks s' = post_hooks s \<and> effect_hooks s' = effect_hooks s
      \<and> hooks_set s' = hooks_set s \<and> wo s' = wo s"
      using c tl by (auto simp: capture_def call_def Let_def)
    then show ?thesis by (intro hooks_inv_same[OF assms(1)]) simp_all
  next
    case False
    then have "s' = s\<lparr>drop_frame := drop_frame s + 1\<rparr>"
      using assms(2) Some by (simp add: post_hook_def)
    then show ?thesis by (intro hooks_inv_same[OF assms(1)]) simp_all
  qed
qed

lemma hooks_inv_registered:
  assumes "hooks_inv s"
  shows "\<forall>w \<in> set_option (wo s).
           (post_hooks s w \<longrightarrow> hooks_set s (Some w) = Some True)
           \<and> (effect_hooks s w \<longrightarrow> hooks_set s (Some w) = Some True)"
  using assms unfolding hooks_inv_def by blast

lemma hooks_inv_ex_idle: "hooks_inv ex_idle"
  by (simp add: hooks_inv_def ex_idle_def)



section \<open>Releasing the output\<close>

text \<open>
  C7. \<^verbatim>\<open>release_output\<close> returns Ok, and a second call returns Ok and leaves the state exactly
  as the first call left it. The only condition is that the hook map holds no true entry
  for the null output (part of \<open>surface_inv\<close>, which every operation preserves): with
  such an entry and no output the source would dereference null.
\<close>

theorem release_output_idempotent:
  assumes "hooks_set s None \<noteq> Some True"
  shows "\<exists>s'. release_output s = Some (Json_ok, s') \<and> release_output s' = Some (Json_ok, s')"
proof (cases "wo s")
  case None
  then show ?thesis using assms
    by (simp add: release_output_def destroy_render_instance_manager_eq rem_hooks_None rem_hooks_False Let_def)
next
  case (Some w)
  then show ?thesis
    by (simp add: release_output_def destroy_render_instance_manager_eq rem_hooks_Some rem_hooks_False Let_def)
qed

theorem release_output_idempotent_witness:
  "\<exists>s'. release_output ex_streaming = Some (Json_ok, s') \<and> release_output s' = Some (Json_ok, s')"
  using release_output_idempotent[of ex_streaming]
  by (simp add: ex_streaming_def ex_bound_def ex_idle_def)

text \<open>
  C8 (as stated, refuted). Released while view 7 is streaming, the session still has
  \<open>current_preview = Some 7\<close>: the source window is not cleared.
\<close>

theorem release_output_counterexample:
  "reply (release_output ex_streaming) = Some Json_ok
   \<and> map_option current_preview (state_after (release_output ex_streaming)) = Some (Some 7)"
  by (simp add: reply_def state_after_def release_output_def destroy_render_instance_manager_eq
      rem_hooks_Some ex_streaming_def ex_bound_def ex_idle_def Let_def)

text \<open>
  C8 (amended). After \<^verbatim>\<open>release_output\<close>, in a state whose hook map covers the hooks
  registered with the output, the render instance manager (the damage bridge) is gone,
  the unmap subscription is disconnected, and \<^verbatim>\<open>post_hook\<close> and \<^verbatim>\<open>damage_hook\<close> are no longer
  registered with the output: the session is idle. \<open>current_preview\<close> is not cleared, it
  keeps its value, as does \<open>wo\<close>.
\<close>

theorem release_output_keeps_preview:
  assumes "hooks_set s None \<noteq> Some True"
    and "\<forall>w \<in> set_option (wo s).
           (post_hooks s w \<longrightarrow> hooks_set s (Some w) = Some True)
           \<and> (effect_hooks s w \<longrightarrow> hooks_set s (Some w) = Some True)"
  shows "\<exists>s'. release_output s = Some (Json_ok, s')
           \<and> instance_manager s' = None \<and> view_unmapped_conn s' = {}
           \<and> hooks_set s' (wo s') = Some False
           \<and> (\<forall>w \<in> set_option (wo s'). \<not> post_hooks s' w \<and> \<not> effect_hooks s' w)
           \<and> session_idle s'
           \<and> current_preview s' = current_preview s \<and> wo s' = wo s"
proof (cases "wo s")
  case None
  then show ?thesis using assms(1)
    by (simp add: release_output_def destroy_render_instance_manager_eq rem_hooks_None Let_def
        session_idle_def)
next
  case (Some w)
  then have tie: "post_hooks s w \<longrightarrow> hooks_set s (Some w) = Some True"
    "effect_hooks s w \<longrightarrow> hooks_set s (Some w) = Some True"
    using assms(2) by simp_all
  show ?thesis
  proof (cases "hooks_set s (Some w) = Some True")
    case True
    then show ?thesis using Some
      by (simp add: release_output_def destroy_render_instance_manager_eq rem_hooks_Some Let_def
          session_idle_def)
  next
    case False
    then show ?thesis using Some tie
      by (simp add: release_output_def destroy_render_instance_manager_eq rem_hooks_Some Let_def
          session_idle_def)
  qed
qed

theorem release_output_keeps_preview_witness:
  "\<exists>s'. release_output ex_streaming = Some (Json_ok, s')
           \<and> instance_manager s' = None \<and> view_unmapped_conn s' = {}
           \<and> hooks_set s' (Some 2) = Some False
           \<and> \<not> post_hooks s' 2 \<and> \<not> effect_hooks s' 2 \<and> session_idle s'
           \<and> current_preview s' = Some 7 \<and> wo s' = Some 2"
proof -
  have pre: "hooks_set ex_streaming None \<noteq> Some True"
    "\<forall>w \<in> set_option (wo ex_streaming).
       (post_hooks ex_streaming w \<longrightarrow> hooks_set ex_streaming (Some w) = Some True)
       \<and> (effect_hooks ex_streaming w \<longrightarrow> hooks_set ex_streaming (Some w) = Some True)"
    by (simp_all add: ex_streaming_def ex_bound_def ex_idle_def)
  from release_output_keeps_preview[OF pre] obtain s' where
    f: "release_output ex_streaming = Some (Json_ok, s')"
       "instance_manager s' = None" "view_unmapped_conn s' = {}"
       "hooks_set s' (wo s') = Some False"
       "\<forall>w \<in> set_option (wo s'). \<not> post_hooks s' w \<and> \<not> effect_hooks s' w"
       "session_idle s'"
       "current_preview s' = current_preview ex_streaming" "wo s' = wo ex_streaming"
    by blast
  then show ?thesis
    by (intro exI[of _ s']) (simp add: ex_streaming_fields)
qed

text \<open>
  C10. With a synthetic output \<open>w\<close> present, \<^verbatim>\<open>release_output\<close> changes only the render
  instance manager, the unmap subscription and the hook registration of \<open>w\<close>; the output,
  \<open>current_size\<close>, \<open>current_preview\<close>, the headless backend, the layout and the modes stay.
  A following \<^verbatim>\<open>request_stream\<close> whose computed size equals \<open>current_size\<close> returns Ok on the
  same output: the only host call it makes is the damage of the view, so nothing is
  created, tested or committed, and the hooks are registered again.
\<close>

theorem release_output_warm_reuse:
  assumes "wo s = Some w" "find_view_by_id s i = Some v" "toplevel s v"
    "scaled_geometry (max_dimension s) (get_geometry s v) = Some (current_size s)"
  shows "\<exists>s1 s2. release_output s = Some (Json_ok, s1)
           \<and> s1 = (if hooks_set s (Some w) = Some True
                   then s\<lparr>instance_manager := None, view_unmapped_conn := {},
                           post_hooks := (post_hooks s)(w := False),
                           effect_hooks := (effect_hooks s)(w := False),
                           hooks_set := (hooks_set s)(Some w \<mapsto> False)\<rparr>
                   else s\<lparr>instance_manager := None, view_unmapped_conn := {},
                           hooks_set := (hooks_set s)(Some w \<mapsto> False)\<rparr>)
           \<and> wo s1 = wo s \<and> current_size s1 = current_size s
           \<and> current_preview s1 = current_preview s
           \<and> headless_backend s1 = headless_backend s
           \<and> layout s1 = layout s \<and> output_mode s1 = output_mode s \<and> calls s1 = calls s
           \<and> request_stream i s1 = Some (Json_ok, s2)
           \<and> wo s2 = Some w \<and> current_size s2 = current_size s
           \<and> layout s2 = layout s \<and> output_mode s2 = output_mode s
           \<and> next_handle s2 = next_handle s
           \<and> calls s2 = calls s @ [View_damage v]
           \<and> current_preview s2 = Some v \<and> instance_manager s2 = Some v
           \<and> post_hooks s2 w \<and> effect_hooks s2 w"
proof -
  define s1 where "s1 = (if hooks_set s (Some w) = Some True
                   then s\<lparr>instance_manager := None, view_unmapped_conn := {},
                           post_hooks := (post_hooks s)(w := False),
                           effect_hooks := (effect_hooks s)(w := False),
                           hooks_set := (hooks_set s)(Some w \<mapsto> False)\<rparr>
                   else s\<lparr>instance_manager := None, view_unmapped_conn := {},
                           hooks_set := (hooks_set s)(Some w \<mapsto> False)\<rparr>)"
  have rel: "release_output s = Some (Json_ok, s1)"
    using assms(1)
    by (simp add: release_output_def destroy_render_instance_manager_eq rem_hooks_Some Let_def s1_def)
  have f1: "wo s1 = Some w" "find_view_by_id s1 i = Some v" "toplevel s1 v"
    "scaled_geometry (max_dimension s1) (get_geometry s1 v) = Some (current_size s1)"
    "hooks_set s1 (Some w) = Some False" "current_size s1 = current_size s"
    "current_preview s1 = current_preview s" "headless_backend s1 = headless_backend s"
    "layout s1 = layout s" "output_mode s1 = output_mode s" "calls s1 = calls s"
    "next_handle s1 = next_handle s" "wo s1 = wo s"
    using assms by (simp_all add: s1_def)
  define s2 where "s2 = bind_view v (add_hooks w (s1\<lparr>drop_frame := frame_skip s1\<rparr>))"
  have req: "request_stream i s1 = Some (Json_ok, s2)"
    unfolding s2_def using f1(2,3,4,1) by (rule request_stream_same_size)
  have f2: "wo s2 = Some w" "current_size s2 = current_size s" "layout s2 = layout s"
    "output_mode s2 = output_mode s" "next_handle s2 = next_handle s"
    "calls s2 = calls s @ [View_damage v]" "current_preview s2 = Some v"
    "instance_manager s2 = Some v" "post_hooks s2 w" "effect_hooks s2 w"
    using f1 by (simp_all add: s2_def bind_view_eq add_hooks_eq)
  show ?thesis
    by (intro exI[of _ s1] exI[of _ s2] conjI rel req f1 f2 s1_def)
qed

theorem release_output_warm_reuse_witness:
  "\<exists>s1 s2. release_output ex_streaming = Some (Json_ok, s1)
     \<and> wo s1 = Some 2 \<and> current_size s1 = \<lparr>width = 256, height = 192\<rparr>
     \<and> current_preview s1 = Some 7 \<and> headless_backend s1 \<and> layout s1 = [1, 2]
     \<and> request_stream 7 s1 = Some (Json_ok, s2)
     \<and> wo s2 = Some 2 \<and> layout s2 = [1, 2]
     \<and> calls s2 = calls ex_streaming @ [View_damage 7]"
proof -
  have pre: "wo ex_streaming = Some 2" "find_view_by_id ex_streaming 7 = Some 7"
    "toplevel ex_streaming 7"
    "scaled_geometry (max_dimension ex_streaming) (get_geometry ex_streaming 7)
       = Some (current_size ex_streaming)"
    by (simp_all add: ex_streaming_fields ex_views_geometry scaled_geometry_800_600)
  from release_output_warm_reuse[OF pre] obtain s1 s2 where
    f: "release_output ex_streaming = Some (Json_ok, s1)"
       "wo s1 = wo ex_streaming" "current_size s1 = current_size ex_streaming"
       "current_preview s1 = current_preview ex_streaming"
       "headless_backend s1 = headless_backend ex_streaming"
       "layout s1 = layout ex_streaming"
       "request_stream 7 s1 = Some (Json_ok, s2)"
       "wo s2 = Some 2" "layout s2 = layout ex_streaming"
       "calls s2 = calls ex_streaming @ [View_damage 7]"
    by blast
  then show ?thesis
    by (intro exI[of _ s1] exI[of _ s2]) (simp add: ex_streaming_fields)
qed



section \<open>Requests\<close>

text \<open>
  C6 (as stated, refuted). With \<open>frame_skip = 2\<close> a successful request leaves the counter at
  2, not at 0.
\<close>

theorem request_stream_drop_frame_counterexample:
  "reply (request_stream 7 ex_idle) = Some Json_ok
   \<and> map_option drop_frame (state_after (request_stream 7 ex_idle)) = Some 2"
  by (simp add: ex_request_7 reply_def state_after_def ex_streaming_def ex_bound_def)

text \<open>
  C6 (amended). Every successful \<^verbatim>\<open>request_stream\<close> sets \<open>drop_frame\<close> to \<open>frame_skip\<close> (line
  125), not to 0, so that the first frame tick after the request captures and resets the
  counter to 0.
\<close>

theorem request_stream_sets_drop_frame:
  assumes "request_stream i s = Some (Json_ok, s')"
  shows "drop_frame s' = frame_skip s \<and> frame_skip s' = frame_skip s
         \<and> (\<exists>t. post_hook s' = Some t \<and> captures t = captures s' + 1 \<and> drop_frame t = 0)"
proof -
  from assms obtain v vg where r: "find_view_by_id s i = Some v" "toplevel s v"
    "scaled_geometry (max_dimension s) (get_geometry s v) = Some vg"
    by (auto simp: request_stream_def Let_def split: option.splits if_splits)
  from request_stream_resolved[OF r] assms have f: "drop_frame s' = frame_skip s"
    "frame_skip s' = frame_skip s" "current_preview s' = Some v" "toplevel s' v"
    using r(2) by auto
  have tl: "toplevel (s'\<lparr>drop_frame := 0\<rparr>) v" using f(4) by simp
  from capture_effect[OF tl] obtain t where
    t: "capture v (s'\<lparr>drop_frame := 0\<rparr>) = Some t" "drop_frame t = 0"
       "captures t = captures (s'\<lparr>drop_frame := 0\<rparr>) + 1"
    by auto
  have "post_hook s' = Some t" using f t(1) by (simp add: post_hook_def)
  moreover have "captures t = captures s' + 1" using t(3) by (simp add: captures_def)
  ultimately show ?thesis using f t(2) by blast
qed

theorem request_stream_sets_drop_frame_witness:
  "request_stream 7 ex_idle = Some (Json_ok, ex_streaming)
   \<and> drop_frame ex_streaming = 2 \<and> frame_skip ex_streaming = 2
   \<and> (\<exists>t. post_hook ex_streaming = Some t
         \<and> captures t = captures ex_streaming + 1 \<and> drop_frame t = 0)"
  using request_stream_sets_drop_frame[OF ex_request_7] ex_request_7
  by (simp add: ex_idle_def)

text \<open>
  C9 (as stated, refuted). View 9 has geometry 0 by 600; the request returns Ok with the
  preview size 0 by 256.
\<close>

theorem request_stream_degenerate_counterexample:
  "reply (request_stream 9 ex_idle) = Some Json_ok
   \<and> map_option current_size (state_after (request_stream 9 ex_idle))
       = Some \<lparr>width = 0, height = 256\<rparr>"
proof -
  have "find_view_by_id ex_idle 9 = Some 9" "toplevel ex_idle 9"
    "scaled_geometry (max_dimension ex_idle) (get_geometry ex_idle 9)
       = Some \<lparr>width = 0, height = 256\<rparr>"
    by (simp_all add: ex_idle_def ex_views_def ex_geometry_def scaled_geometry_0_600)
  from request_stream_resolved[OF this] show ?thesis
    by (auto simp: reply_def state_after_def)
qed

text \<open>
  C9 (amended). For a toplevel window with exactly one side zero and the other positive,
  \<^verbatim>\<open>request_stream\<close> does not reject: it computes a preview size with the zero side 0 and
  the other side \<open>max_dimension\<close>, binds the window and returns Ok.
\<close>

theorem request_stream_degenerate:
  assumes "find_view_by_id s i = Some v" "toplevel s v"
    "get_geometry s v = \<lparr>width = w, height = h\<rparr>"
    "(w = 0 \<and> 0 < h) \<or> (0 < w \<and> h = 0)"
  shows "\<exists>s'. request_stream i s = Some (Json_ok, s')
           \<and> current_size s' = (if w = 0 then \<lparr>width = 0, height = max_dimension s\<rparr>
                                 else \<lparr>width = max_dimension s, height = 0\<rparr>)
           \<and> current_preview s' = Some v"
proof -
  have "scaled_geometry (max_dimension s) (get_geometry s v)
          = Some (if w = 0 then \<lparr>width = 0, height = max_dimension s\<rparr>
                  else \<lparr>width = max_dimension s, height = 0\<rparr>)"
    using assms(3,4) by (auto simp: scaled_geometry_degenerate)
  from request_stream_resolved[OF assms(1,2) this] show ?thesis by auto
qed

theorem request_stream_degenerate_witness:
  "\<exists>s'. request_stream 9 ex_idle = Some (Json_ok, s')
         \<and> current_size s' = \<lparr>width = 0, height = 256\<rparr> \<and> current_preview s' = Some 9"
  using request_stream_degenerate[of ex_idle 9 9 0 600]
  by (simp add: ex_idle_def ex_views_def ex_geometry_def)

text \<open>
  C4. A request whose computed size differs from \<open>current_size\<close> while the output \<open>w\<close>
  exists (found in the layout under its name, and distinct from the next handle) first
  tests the new mode. If the host accepts it, the mode is committed on \<open>w\<close>. If the host
  rejects it, no mode is committed and the mode of \<open>w\<close> is untouched; \<open>w\<close> is removed from
  the layout and destroyed, and the same request creates a fresh output of the new size.
  In both cases the reply is Ok and \<open>current_size\<close> is the new size.
\<close>

theorem request_stream_test_then_commit:
  assumes "wo s = Some w" "find_output s ''live-preview'' = Some w" "next_handle s \<noteq> w"
    "find_view_by_id s i = Some v" "toplevel s v"
    "scaled_geometry (max_dimension s) (get_geometry s v) = Some vg"
    "width vg \<noteq> width (current_size s) \<or> height vg \<noteq> height (current_size s)"
  shows "\<exists>s'. request_stream i s = Some (Json_ok, s')
           \<and> current_size s' = vg \<and> current_preview s' = Some v
           \<and> (if test_state s w vg
               then wo s' = Some w \<and> layout s' = layout s
                    \<and> output_mode s' = (output_mode s)(w := vg)
                    \<and> calls s' = calls s @ [Output_test_state w vg, Output_commit_state w vg,
                                             View_damage v]
               else wo s' = Some (next_handle s) \<and> w \<notin> set (layout s')
                    \<and> layout s' = removeAll w (layout s) @ [next_handle s]
                    \<and> output_mode s' w = output_mode s w
                    \<and> output_mode s' (next_handle s) = vg
                    \<and> calls s' = calls s @ [Output_test_state w vg, Output_layout_remove w,
                                             Output_destroy w]
                                  @ (if headless_backend s then [] else [Headless_backend_create])
                                  @ [Headless_add_output vg, View_damage v])"
proof (cases "test_state s w vg")
  case True
  then have r: "resize_output vg (s\<lparr>drop_frame := frame_skip s, current_size := vg\<rparr>)
      = s\<lparr>drop_frame := frame_skip s, current_size := vg,
           calls := calls s @ [Output_test_state w vg, Output_commit_state w vg],
           output_mode := (output_mode s)(w := vg)\<rparr>"
    using assms(1) by (simp add: resize_output_def call_def Let_def)
  show ?thesis
    using True assms(1) by (simp add: request_stream_resize[OF assms(4,5,6,7,1)] r Let_def)
next
  case False
  define t where "t = s\<lparr>drop_frame := frame_skip s, current_size := vg,
                        calls := calls s @ [Output_test_state w vg]\<rparr>"
  have r: "resize_output vg (s\<lparr>drop_frame := frame_skip s, current_size := vg\<rparr>) = destroy_output t"
    using False assms(1) by (simp add: resize_output_def call_def Let_def t_def)
  have ft: "find_output t ''live-preview'' = Some w"
    using assms(2) by (simp add: find_output_def t_def)
  have wt: "wo t = Some w" using assms(1) by (simp add: t_def)
  show ?thesis
    using False assms(3) wt
    by (simp add: request_stream_resize[OF assms(4,5,6,7,1)] r Let_def destroy_output_found[OF ft])
       (simp add: t_def)
qed

theorem request_stream_test_then_commit_witness:
  "(\<exists>s'. request_stream 12 ex_streaming = Some (Json_ok, s')
         \<and> current_size s' = \<lparr>width = 256, height = 144\<rparr> \<and> wo s' = Some 2
         \<and> layout s' = [1, 2] \<and> output_mode s' 2 = \<lparr>width = 256, height = 144\<rparr>)
   \<and> (\<exists>s'. request_stream 8 ex_streaming = Some (Json_ok, s')
         \<and> current_size s' = \<lparr>width = 192, height = 256\<rparr> \<and> wo s' = Some 3
         \<and> layout s' = [1, 3] \<and> output_mode s' 2 = \<lparr>width = 256, height = 192\<rparr>
         \<and> output_mode s' 3 = \<lparr>width = 192, height = 256\<rparr>)"
  using request_stream_test_then_commit[of ex_streaming 2 12 12 "\<lparr>width = 256, height = 144\<rparr>"]
    request_stream_test_then_commit[of ex_streaming 2 8 8 "\<lparr>width = 192, height = 256\<rparr>"]
  by (simp add: ex_streaming_fields ex_views_geometry scaled_geometry_1920_1080
      scaled_geometry_600_800) auto



section \<open>Unmapping the bound window\<close>

text \<open>
  C2 (as stated, refuted). After view 7 is unmapped, output 2 is still \<open>wo\<close> and still in the
  layout, nothing was destroyed, and the request for view 11 is served by output 2: no
  fresh surface.
\<close>

theorem view_unmapped_counterexample:
  "map_option wo (view_unmapped 7 ex_streaming) = Some (Some 2)
   \<and> map_option layout (view_unmapped 7 ex_streaming) = Some [1, 2]
   \<and> map_option calls (view_unmapped 7 ex_streaming) = Some (calls ex_streaming)
   \<and> reply (Option.bind (view_unmapped 7 ex_streaming) (request_stream 11)) = Some Json_ok
   \<and> map_option wo (state_after (Option.bind (view_unmapped 7 ex_streaming) (request_stream 11)))
       = Some (Some 2)
   \<and> map_option layout (state_after (Option.bind (view_unmapped 7 ex_streaming) (request_stream 11)))
       = Some [1, 2]"
proof -
  have pre: "current_preview ex_streaming = Some 7" "wo ex_streaming = Some 2"
    "find_view_by_id ex_streaming 11 = Some 11" "toplevel ex_streaming 11"
    "scaled_geometry (max_dimension ex_streaming) (get_geometry ex_streaming 11)
       = Some \<lparr>width = 256, height = 192\<rparr>"
    "\<lparr>width = 256, height = 192\<rparr> = current_size ex_streaming
       \<or> test_state ex_streaming 2 \<lparr>width = 256, height = 192\<rparr>"
    by (simp_all add: ex_streaming_fields ex_views_geometry scaled_geometry_1600_1200)
  from view_unmapped_bound[OF pre(1,2)] pre
  show ?thesis
    by (simp add: ex_streaming_fields ex_views_geometry scaled_geometry_1600_1200
        reply_def state_after_def request_stream_same_size)
qed

text \<open>
  C2 (amended). When the bound window is unmapped, in a state whose hook map covers the
  hooks registered with the output, the handler disconnects the unmap subscription,
  removes the render instance manager, clears \<open>current_preview\<close> and unregisters
  \<^verbatim>\<open>post_hook\<close> and \<^verbatim>\<open>damage_hook\<close>; it makes no host call and keeps the synthetic output. A
  following \<^verbatim>\<open>request_stream\<close> for another window, whose size is the current one or is
  accepted by the host, succeeds on that same output, is bound to the new window only and
  registers the hooks again.
\<close>

theorem view_unmapped_keeps_surface:
  assumes "current_preview s = Some v" "wo s = Some w"
    "find_view_by_id s i = Some v2" "toplevel s v2"
    "scaled_geometry (max_dimension s) (get_geometry s v2) = Some vg"
    "vg = current_size s \<or> test_state s w vg"
    "post_hooks s w \<longrightarrow> hooks_set s (Some w) = Some True"
    "effect_hooks s w \<longrightarrow> hooks_set s (Some w) = Some True"
  shows "\<exists>s1 s2. view_unmapped v s = Some s1
           \<and> instance_manager s1 = None \<and> current_preview s1 = None
           \<and> view_unmapped_conn s1 = {} \<and> hooks_set s1 (Some w) = Some False
           \<and> \<not> post_hooks s1 w \<and> \<not> effect_hooks s1 w
           \<and> wo s1 = Some w \<and> layout s1 = layout s \<and> calls s1 = calls s
           \<and> request_stream i s1 = Some (Json_ok, s2)
           \<and> wo s2 = Some w \<and> layout s2 = layout s \<and> next_handle s2 = next_handle s
           \<and> current_size s2 = vg
           \<and> current_preview s2 = Some v2 \<and> instance_manager s2 = Some v2
           \<and> view_unmapped_conn s2 = {v2}
           \<and> post_hooks s2 w \<and> effect_hooks s2 w"
proof -
  obtain s1 where u: "view_unmapped v s = Some s1"
    and f1: "instance_manager s1 = None" "current_preview s1 = None"
      "view_unmapped_conn s1 = {}" "hooks_set s1 (Some w) = Some False"
      "\<not> post_hooks s1 w" "\<not> effect_hooks s1 w"
      "wo s1 = Some w" "layout s1 = layout s" "calls s1 = calls s"
    and g1: "find_view_by_id s1 = find_view_by_id s" "toplevel s1 = toplevel s"
      "get_geometry s1 = get_geometry s" "max_dimension s1 = max_dimension s"
      "current_size s1 = current_size s" "test_state s1 = test_state s"
      "next_handle s1 = next_handle s" "frame_skip s1 = frame_skip s"
    using view_unmapped_bound[OF assms(1,2)] assms(2,7,8)
    by (cases "hooks_set s (Some w) = Some True") simp_all
  have pre: "find_view_by_id s1 i = Some v2" "toplevel s1 v2"
    "scaled_geometry (max_dimension s1) (get_geometry s1 v2) = Some vg"
    using assms g1 by simp_all
  show ?thesis
  proof (cases "vg = current_size s")
    case True
    then have same: "scaled_geometry (max_dimension s1) (get_geometry s1 v2) = Some (current_size s1)"
      using pre g1 by simp
    define s2 where "s2 = bind_view v2 (add_hooks w (s1\<lparr>drop_frame := frame_skip s1\<rparr>))"
    have r: "request_stream i s1 = Some (Json_ok, s2)"
      unfolding s2_def using pre(1,2) same f1(7) by (rule request_stream_same_size)
    have f2: "wo s2 = Some w" "layout s2 = layout s" "next_handle s2 = next_handle s"
      "current_size s2 = vg" "current_preview s2 = Some v2" "instance_manager s2 = Some v2"
      "view_unmapped_conn s2 = {v2}" "post_hooks s2 w" "effect_hooks s2 w"
      using f1 g1 True by (simp_all add: s2_def bind_view_eq add_hooks_eq)
    show ?thesis by (intro exI[of _ s1] exI[of _ s2] conjI u f1 r f2)
  next
    case False
    then have ok: "test_state s1 w vg" and ne: "width vg \<noteq> width (current_size s1) \<or> height vg \<noteq> height (current_size s1)"
      using assms(6) g1 by auto
    define t where "t = s1\<lparr>drop_frame := frame_skip s1, current_size := vg,
           calls := calls s1 @ [Output_test_state w vg, Output_commit_state w vg],
           output_mode := (output_mode s1)(w := vg)\<rparr>"
    have rz: "resize_output vg (s1\<lparr>drop_frame := frame_skip s1, current_size := vg\<rparr>) = t"
      using ok f1(7) by (simp add: resize_output_def call_def Let_def t_def)
    define s2 where "s2 = bind_view v2 (add_hooks w t)"
    have r: "request_stream i s1 = Some (Json_ok, s2)"
      using f1(7) by (simp add: request_stream_resize[OF pre ne f1(7)] rz Let_def s2_def t_def)
    have f2: "wo s2 = Some w" "layout s2 = layout s" "next_handle s2 = next_handle s"
      "current_size s2 = vg" "current_preview s2 = Some v2" "instance_manager s2 = Some v2"
      "view_unmapped_conn s2 = {v2}" "post_hooks s2 w" "effect_hooks s2 w"
      using f1 g1 by (simp_all add: s2_def t_def bind_view_eq add_hooks_eq)
    show ?thesis by (intro exI[of _ s1] exI[of _ s2] conjI u f1 r f2)
  qed
qed

theorem view_unmapped_keeps_surface_witness:
  "\<exists>s1 s2. view_unmapped 7 ex_streaming = Some s1
     \<and> instance_manager s1 = None \<and> current_preview s1 = None \<and> wo s1 = Some 2
     \<and> \<not> post_hooks s1 2 \<and> \<not> effect_hooks s1 2
     \<and> request_stream 11 s1 = Some (Json_ok, s2)
     \<and> wo s2 = Some 2 \<and> layout s2 = [1, 2] \<and> current_preview s2 = Some 11
     \<and> view_unmapped_conn s2 = {11} \<and> post_hooks s2 2 \<and> effect_hooks s2 2"
proof -
  have pre: "current_preview ex_streaming = Some 7" "wo ex_streaming = Some 2"
    "find_view_by_id ex_streaming 11 = Some 11" "toplevel ex_streaming 11"
    "scaled_geometry (max_dimension ex_streaming) (get_geometry ex_streaming 11)
       = Some \<lparr>width = 256, height = 192\<rparr>"
    "\<lparr>width = 256, height = 192\<rparr> = current_size ex_streaming
       \<or> test_state ex_streaming 2 \<lparr>width = 256, height = 192\<rparr>"
    "post_hooks ex_streaming 2 \<longrightarrow> hooks_set ex_streaming (Some 2) = Some True"
    "effect_hooks ex_streaming 2 \<longrightarrow> hooks_set ex_streaming (Some 2) = Some True"
    by (simp_all add: ex_streaming_fields ex_views_geometry scaled_geometry_1600_1200)
       (simp_all add: ex_streaming_def ex_bound_def ex_idle_def)
  from view_unmapped_keeps_surface[OF pre] obtain s1 s2 where
    f: "view_unmapped 7 ex_streaming = Some s1"
       "instance_manager s1 = None" "current_preview s1 = None" "wo s1 = Some 2"
       "\<not> post_hooks s1 2" "\<not> effect_hooks s1 2"
       "request_stream 11 s1 = Some (Json_ok, s2)"
       "wo s2 = Some 2" "layout s2 = layout ex_streaming" "current_preview s2 = Some 11"
       "view_unmapped_conn s2 = {11}" "post_hooks s2 2" "effect_hooks s2 2"
    by blast
  then show ?thesis
    by (intro exI[of _ s1] exI[of _ s2]) (simp add: ex_streaming_fields)
qed


section \<open>Frame throttle\<close>

lemma post_hook_step:
  assumes "throttle_inv v s"
  shows "\<exists>s'. post_hook s = Some s' \<and> throttle_inv v s' \<and> frame_skip s' = frame_skip s
           \<and> (if frame_skip s \<le> drop_frame s
               then drop_frame s' = 0 \<and> captures s' = captures s + 1
               else drop_frame s' = drop_frame s + 1 \<and> captures s' = captures s)"
proof (cases "frame_skip s \<le> drop_frame s")
  case True
  have tl: "toplevel (s\<lparr>drop_frame := 0\<rparr>) v" using assms by (simp add: throttle_inv_def)
  from capture_effect[OF tl] obtain s' where
    "capture v (s\<lparr>drop_frame := 0\<rparr>) = Some s'" "drop_frame s' = 0" "frame_skip s' = frame_skip s"
    "current_preview s' = current_preview s" "toplevel s' = toplevel s"
    "captures s' = captures (s\<lparr>drop_frame := 0\<rparr>) + 1"
    by auto
  then show ?thesis using True assms
    by (auto simp: post_hook_def throttle_inv_def captures_def)
next
  case False
  then show ?thesis using assms
    by (auto simp: post_hook_def throttle_inv_def captures_def)
qed

lemma ticks_add:
  "ticks (m + n) s = (case ticks m s of None \<Rightarrow> None | Some s' \<Rightarrow> ticks n s')"
  by (induction m arbitrary: s) (simp_all split: option.splits)

lemma ticks_inv:
  assumes "throttle_inv v s"
  shows "\<exists>s'. ticks n s = Some s' \<and> throttle_inv v s' \<and> frame_skip s' = frame_skip s"
  using assms
proof (induction n arbitrary: s)
  case 0
  then show ?case by simp
next
  case (Suc n)
  from post_hook_step[OF Suc.prems] obtain t where
    t: "post_hook s = Some t" "throttle_inv v t" "frame_skip t = frame_skip s" by blast
  from Suc.IH[OF t(2)] t show ?case by auto
qed

lemma skip_run:
  assumes "throttle_inv v s" "drop_frame s + int j \<le> frame_skip s"
  shows "\<exists>s'. ticks j s = Some s' \<and> throttle_inv v s' \<and> frame_skip s' = frame_skip s
           \<and> drop_frame s' = drop_frame s + int j \<and> captures s' = captures s"
  using assms
proof (induction j arbitrary: s)
  case 0
  then show ?case by simp
next
  case (Suc j)
  then have lt: "\<not> frame_skip s \<le> drop_frame s" by simp
  from post_hook_step[OF Suc.prems(1)] lt obtain t where
    t: "post_hook s = Some t" "throttle_inv v t" "frame_skip t = frame_skip s"
       "drop_frame t = drop_frame s + 1" "captures t = captures s"
    by auto
  have "drop_frame t + int j \<le> frame_skip t" using t Suc.prems(2) by simp
  from Suc.IH[OF t(2) this] t show ?case by auto
qed

lemma throttle_period:
  assumes "throttle_inv v s"
  shows "\<exists>s'. ticks (nat (frame_skip s) + 1) s = Some s'
           \<and> captures s' = captures s + 1 \<and> drop_frame s' = drop_frame s"
proof -
  define k where "k = frame_skip s"
  define c where "c = drop_frame s"
  have kc: "0 \<le> c" "c \<le> k" using assms by (simp_all add: throttle_inv_def k_def c_def)
  have n: "nat k + 1 = nat (k - c) + (1 + nat c)" using kc by simp
  from skip_run[OF assms, of "nat (k - c)"] kc obtain s1 where
    s1: "ticks (nat (k - c)) s = Some s1" "throttle_inv v s1" "frame_skip s1 = k"
        "drop_frame s1 = k" "captures s1 = captures s"
    by (auto simp: k_def c_def)
  from post_hook_step[OF s1(2)] s1 obtain s2 where
    s2: "post_hook s1 = Some s2" "throttle_inv v s2" "frame_skip s2 = k"
        "drop_frame s2 = 0" "captures s2 = captures s + 1"
    by auto
  from skip_run[OF s2(2), of "nat c"] kc s2 obtain s3 where
    s3: "ticks (nat c) s2 = Some s3" "drop_frame s3 = c" "captures s3 = captures s + 1"
    by auto
  have a: "ticks (1 + nat c) s1 = Some s3" by (simp add: s2 s3)
  have "ticks (nat (k - c) + (1 + nat c)) s = Some s3"
    by (simp only: ticks_add[of "nat (k - c)" "1 + nat c" s] s1 option.case a)
  then have "ticks (nat k + 1) s = Some s3" by (simp only: n)
  then show ?thesis using s3 by (simp add: k_def c_def)
qed

lemma request_stream_throttle_inv:
  assumes "request_stream i s = Some (Json_ok, s')" "0 \<le> frame_skip s"
  shows "\<exists>v. throttle_inv v s'"
proof -
  from assms(1) obtain v vg where r: "find_view_by_id s i = Some v" "toplevel s v"
    "scaled_geometry (max_dimension s) (get_geometry s v) = Some vg"
    by (auto simp: request_stream_def Let_def split: option.splits if_splits)
  from request_stream_resolved[OF r] assms r(2) show ?thesis
    by (auto simp: throttle_inv_def)
qed

lemma ex_streaming_throttle_inv: "throttle_inv 7 ex_streaming"
  by (simp add: throttle_inv_def ex_streaming_fields)

text \<open>
  C5. While a toplevel window is bound and the counter lies in \<open>[0, frame_skip]\<close>, a frame tick
  captures and resets the counter to 0 when \<open>frame_skip \<le> drop_frame\<close>, and otherwise
  increments the counter and skips; and after any number \<open>n\<close> of ticks, the next
  \<open>frame_skip + 1\<close> ticks contain exactly one capture and bring the counter back to where
  it was.
\<close>

theorem frame_throttle_once_per_period:
  assumes "throttle_inv v s"
  shows "(\<exists>t. post_hook s = Some t
            \<and> (if frame_skip s \<le> drop_frame s
                then drop_frame t = 0 \<and> captures t = captures s + 1
                else drop_frame t = drop_frame s + 1 \<and> captures t = captures s))
         \<and> (\<exists>s1 s2. ticks n s = Some s1
               \<and> ticks (nat (frame_skip s) + 1) s1 = Some s2
               \<and> captures s2 = captures s1 + 1
               \<and> drop_frame s2 = drop_frame s1)"
proof
  from post_hook_step[OF assms]
  show "\<exists>t. post_hook s = Some t
            \<and> (if frame_skip s \<le> drop_frame s
                then drop_frame t = 0 \<and> captures t = captures s + 1
                else drop_frame t = drop_frame s + 1 \<and> captures t = captures s)"
    by blast
  from ticks_inv[OF assms, of n] obtain s1 where
    s1: "ticks n s = Some s1" "throttle_inv v s1" "frame_skip s1 = frame_skip s" by blast
  from throttle_period[OF s1(2)] s1
  show "\<exists>s1 s2. ticks n s = Some s1
               \<and> ticks (nat (frame_skip s) + 1) s1 = Some s2
               \<and> captures s2 = captures s1 + 1
               \<and> drop_frame s2 = drop_frame s1"
    by auto
qed

theorem frame_throttle_once_per_period_witness:
  "\<exists>s1 s2. ticks 5 ex_streaming = Some s1 \<and> ticks 3 s1 = Some s2
     \<and> captures s2 = captures s1 + 1 \<and> drop_frame s2 = drop_frame s1"
  using frame_throttle_once_per_period[OF ex_streaming_throttle_inv, of 5]
  by (simp add: ex_streaming_fields)



section \<open>Capture scale\<close>

text \<open>
  C3 (the code at the failing input). View 8 is 600 by 800 and bound with
  \<open>max_dimension = 256\<close>. The first frame tick takes its snapshot at scale \<open>256 / 600\<close>
  (about 0.4267, rounded to single precision), the quotient by the width, and not at
  \<open>256 / max 600 800\<close> (0.32); the scale of the view's output is the same after the tick as
  before.
\<close>

theorem capture_scale_portrait:
  "map_option snapshot_scales (map_option calls (post_hook ex_portrait))
     = Some [Finite (7158279 / 16777216)]
   \<and> fdiv (of_int32 256) (of_int32 (max 600 800)) = Finite (5368709 / 16777216)
   \<and> map_option output_scale (post_hook ex_portrait) = Some (output_scale ex_portrait)"
proof -
  have tl: "toplevel (ex_portrait\<lparr>drop_frame := 0\<rparr>) 8" by (simp add: ex_portrait_fields)
  from capture_effect[OF tl] obtain s' where
    s': "capture 8 (ex_portrait\<lparr>drop_frame := 0\<rparr>) = Some s'"
        "output_scale s' = output_scale ex_portrait"
        "calls s' = calls ex_portrait @ [View_damage 8,
           Take_snapshot 8 (fdiv (of_int32 256) (of_int32 600)),
           Blit \<lparr>width = 192, height = 256\<rparr>, View_damage 8]"
    by (auto simp: ex_portrait_fields)
  have "post_hook ex_portrait = Some s'"
    by (simp add: post_hook_def ex_portrait_fields s')
  then show ?thesis
    by (simp add: s' ex_portrait_fields scale_256_600 scale_256_800)
qed

end
